theory Spec2Isabelle
  imports Complex_Main "HOL-Library.Monad_Syntax"
begin

section \<open>JavaScript values: strings and the undefined value\<close>

text \<open>
  A JavaScript string is a sequence of UTF-16 code units. A code unit is modelled as a natural
  number and a string as the list of its code units; the string made of one character \<open>c\<close> is
  \<open>[c]\<close>. A value that may be \<open>undefined\<close> is an \<open>option\<close>, with \<open>None\<close> for \<open>undefined\<close>.
  Indices and offsets are integers; the numbers given to \<open>skip\<close> and \<open>take\<close> are introduced
  with the iterators.
\<close>

type_synonym codeunit = nat
type_synonym jsstring = "codeunit list"

definition js :: "string \<Rightarrow> jsstring" where
  "js s = map of_char s"

text \<open>The relational operators on two strings compare them code unit by code unit.\<close>

fun string_le :: "jsstring \<Rightarrow> jsstring \<Rightarrow> bool" where
  "string_le [] ys = True"
| "string_le (x # xs) [] = False"
| "string_le (x # xs) (y # ys) = (x < y \<or> (x = y \<and> string_le xs ys))"

text \<open>String conversion of a value that is a string or \<open>undefined\<close>, as \<open>+=\<close> applies it.\<close>

definition toStringValue :: "jsstring option \<Rightarrow> jsstring" where
  "toStringValue v = (case v of Some s \<Rightarrow> s | None \<Rightarrow> js ''undefined'')"

definition isDefined :: "'a option \<Rightarrow> bool" where
  "isDefined v = (v \<noteq> None)"

definition getLength :: "'a list \<Rightarrow> int" where
  "getLength v = int (length v)"

text \<open>Indexing \<open>xs[i]\<close>: the element at an index inside the sequence, \<open>undefined\<close> outside.\<close>

definition index :: "'a list \<Rightarrow> int \<Rightarrow> 'a option" where
  "index xs i = (if 0 \<le> i \<and> i < int (length xs) then Some (xs ! nat i) else None)"

section \<open>The string cursor: StringIterator\<close>

text \<open>
  The private field \<open>_step\<close> is assigned once, in the constructor, from \<open>_startIndex\<close> and
  \<open>_endIndex\<close>, and none of the three is assigned again; it is the function
  \<open>StringIterator_step\<close> of the other two.
\<close>

record 'a StringIterator =
  it_text :: "'a list"
  it_startIndex :: int
  it_endIndex :: int
  it_currentIndex :: int
  it_started :: bool

definition StringIterator_new :: "'a list \<Rightarrow> int option \<Rightarrow> int option \<Rightarrow> 'a StringIterator" where
  "StringIterator_new txt startIndex endIndex =
     (let s = (case startIndex of None \<Rightarrow> 0 | Some i \<Rightarrow> i);
          e = (case endIndex of None \<Rightarrow> getLength txt | Some i \<Rightarrow> i)
      in \<lparr>it_text = txt, it_startIndex = s, it_endIndex = e, it_currentIndex = s,
          it_started = False\<rparr>)"

definition StringIterator_step :: "'a StringIterator \<Rightarrow> int" where
  "StringIterator_step it = (if it_endIndex it \<ge> it_startIndex it then 1 else - 1)"

definition StringIterator_hasMore :: "'a StringIterator \<Rightarrow> bool" where
  "StringIterator_hasMore it =
     (if StringIterator_step it > 0 then it_currentIndex it < it_endIndex it
      else it_currentIndex it > it_endIndex it)"

definition StringIterator_hasStarted :: "'a StringIterator \<Rightarrow> bool" where
  "StringIterator_hasStarted it = it_started it"

definition StringIterator_hasCurrent :: "'a StringIterator \<Rightarrow> bool" where
  "StringIterator_hasCurrent it = (StringIterator_hasStarted it \<and> StringIterator_hasMore it)"

definition StringIterator_currentIndex :: "'a StringIterator \<Rightarrow> int option" where
  "StringIterator_currentIndex it =
     (if StringIterator_hasCurrent it then Some (it_currentIndex it) else None)"

definition StringIterator_getCurrent :: "'a StringIterator \<Rightarrow> 'a option" where
  "StringIterator_getCurrent it =
     (if StringIterator_hasCurrent it then index (it_text it) (it_currentIndex it) else None)"

definition StringIterator_next :: "'a StringIterator \<Rightarrow> bool \<times> 'a StringIterator" where
  "StringIterator_next it =
     (let it' = (if it_started it = False then it\<lparr>it_started := True\<rparr>
                 else if StringIterator_hasMore it
                      then it\<lparr>it_currentIndex := it_currentIndex it + StringIterator_step it\<rparr>
                      else it)
      in (StringIterator_hasMore it', it'))"

section \<open>Character classes\<close>

definition isDigit :: "jsstring option \<Rightarrow> bool" where
  "isDigit character =
     (case character of None \<Rightarrow> False
      | Some c \<Rightarrow> string_le (js ''0'') c \<and> string_le c (js ''9''))"

text \<open>
  \<open>isLetter\<close> is one expression: the range from U+0041 to U+0059, or a right-nested chain
  \<open>c \<ge> lo\<^sub>1 && (c \<le> hi\<^sub>1 || c \<ge> lo\<^sub>2 && (c \<le> hi\<^sub>2 || \<dots>))\<close> over the table below. An escape
  written with five hexadecimal digits is the four-digit code unit followed by the character of
  the fifth digit, so those bounds are strings of two code units.
\<close>

definition letterRanges :: "(jsstring \<times> jsstring) list" where
  "letterRanges = [
   ([0x0061], [0x0079]), ([0x00AA], [0x00AA]), ([0x00BA], [0x00D5]), ([0x00D8], [0x00F5]),
    ([0x00F8], [0x02C0]), ([0x02C6], [0x02D0]), ([0x02E0], [0x02E3]), ([0x02EC], [0x02EC]),
    ([0x0370], [0x0373]), ([0x0376], [0x0376]), ([0x037A], [0x037C]), ([0x037F], [0x037F]),
    ([0x0388], [0x0389]), ([0x038C], [0x03A0]), ([0x03A3], [0x03F4]), ([0x03F7], [0x0480]),
    ([0x048A], [0x052E]), ([0x0531], [0x0555]), ([0x0559], [0x0586]), ([0x05D0], [0x05E9]),
    ([0x05F0], [0x05F1]), ([0x0620], [0x0649]), ([0x066E], [0x066E]), ([0x0671], [0x06D2]),
    ([0x06D5], [0x06E5]), ([0x06EE], [0x06EE]), ([0x06FA], [0x06FB]), ([0x06FF], [0x06FF]),
    ([0x0712], [0x072E]), ([0x074D], [0x07A4]), ([0x07B1], [0x07E9]), ([0x07F4], [0x07F4]),
    ([0x07FA], [0x0814]), ([0x081A], [0x081A]), ([0x0828], [0x0857]), ([0x0860], [0x0869]),
    ([0x08A0], [0x08B3]), ([0x08B6], [0x08BC]), ([0x0904], [0x0938]), ([0x093D], [0x093D]),
    ([0x0958], [0x0960]), ([0x0971], [0x097F]), ([0x0985], [0x098B]), ([0x098F], [0x098F]),
    ([0x0993], [0x09A7]), ([0x09AA], [0x09AF]), ([0x09B2], [0x09B8]), ([0x09BD], [0x09BD]),
    ([0x09DC], [0x09DC]), ([0x09DF], [0x09E0]), ([0x09F0], [0x09F0]), ([0x09FC], [0x0A09]),
    ([0x0A0F], [0x0A0F]), ([0x0A13], [0x0A27]), ([0x0A2A], [0x0A2F]), ([0x0A32], [0x0A32]),
    ([0x0A35], [0x0A35]), ([0x0A38], [0x0A38]), ([0x0A59], [0x0A5B]), ([0x0A5E], [0x0A73]),
    ([0x0A85], [0x0A8C]), ([0x0A8F], [0x0A90]), ([0x0A93], [0x0AA7]), ([0x0AAA], [0x0AAF]),
    ([0x0AB2], [0x0AB2]), ([0x0AB5], [0x0AB8]), ([0x0ABD], [0x0ABD]), ([0x0AE0], [0x0AE0]),
    ([0x0AF9], [0x0B0B]), ([0x0B0F], [0x0B0F]), ([0x0B13], [0x0B27]), ([0x0B2A], [0x0B2F]),
    ([0x0B32], [0x0B32]), ([0x0B35], [0x0B38]), ([0x0B3D], [0x0B5C]), ([0x0B5F], [0x0B60]),
    ([0x0B71], [0x0B71]), ([0x0B85], [0x0B89]), ([0x0B8E], [0x0B8F]), ([0x0B92], [0x0B94]),
    ([0x0B99], [0x0B99]), ([0x0B9C], [0x0B9E]), ([0x0BA3], [0x0BA3]), ([0x0BA8], [0x0BA9]),
    ([0x0BAE], [0x0BB8]), ([0x0BD0], [0x0C0B]), ([0x0C0E], [0x0C0F]), ([0x0C12], [0x0C27]),
    ([0x0C2A], [0x0C38]), ([0x0C3D], [0x0C59]), ([0x0C60], [0x0C60]), ([0x0C80], [0x0C8B]),
    ([0x0C8E], [0x0C8F]), ([0x0C92], [0x0CA7]), ([0x0CAA], [0x0CB2]), ([0x0CB5], [0x0CB8]),
    ([0x0CBD], [0x0CBD]), ([0x0CE0], [0x0CE0]), ([0x0CF1], [0x0CF1]), ([0x0D05], [0x0D0B]),
    ([0x0D0E], [0x0D0F]), ([0x0D12], [0x0D39]), ([0x0D3D], [0x0D3D]), ([0x0D54], [0x0D55]),
    ([0x0D5F], [0x0D60]), ([0x0D7A], [0x0D7E]), ([0x0D85], [0x0D95]), ([0x0D9A], [0x0DB0]),
    ([0x0DB3], [0x0DBA]), ([0x0DBD], [0x0DC5]), ([0x0E01], [0x0E2F]), ([0x0E32], [0x0E32]),
    ([0x0E40], [0x0E45]), ([0x0E81], [0x0E81]), ([0x0E84], [0x0E87]), ([0x0E8A], [0x0E8A]),
    ([0x0E94], [0x0E96]), ([0x0E99], [0x0E9E]), ([0x0EA1], [0x0EA2]), ([0x0EA5], [0x0EA5]),
    ([0x0EAA], [0x0EAA]), ([0x0EAD], [0x0EAF]), ([0x0EB2], [0x0EB2]), ([0x0EBD], [0x0EC3]),
    ([0x0EC6], [0x0EDE]), ([0x0F00], [0x0F46]), ([0x0F49], [0x0F6B]), ([0x0F88], [0x0F8B]),
    ([0x1000], [0x1029]), ([0x103F], [0x1054]), ([0x105A], [0x105C]), ([0x1061], [0x1065]),
    ([0x106E], [0x106F]), ([0x1075], [0x1080]), ([0x108E], [0x10C4]), ([0x10C7], [0x10C7]),
    ([0x10D0], [0x10F9]), ([0x10FC], [0x1247]), ([0x124A], [0x124C]), ([0x1250], [0x1255]),
    ([0x1258], [0x125C]), ([0x1260], [0x1287]), ([0x128A], [0x128C]), ([0x1290], [0x12AF]),
    ([0x12B2], [0x12B4]), ([0x12B8], [0x12BD]), ([0x12C0], [0x12C4]), ([0x12C8], [0x12D5]),
    ([0x12D8], [0x130F]), ([0x1312], [0x1314]), ([0x1318], [0x1359]), ([0x1380], [0x138E]),
    ([0x13A0], [0x13F4]), ([0x13F8], [0x13FC]), ([0x1401], [0x166B]), ([0x166F], [0x167E]),
    ([0x1681], [0x1699]), ([0x16A0], [0x16E9]), ([0x16F1], [0x16F7]), ([0x1700], [0x170B]),
    ([0x170E], [0x1710]), ([0x1720], [0x1730]), ([0x1740], [0x1750]), ([0x1760], [0x176B]),
    ([0x176E], [0x176F]), ([0x1780], [0x17B2]), ([0x17D7], [0x17D7]), ([0x1820], [0x1876]),
    ([0x1880], [0x1883]), ([0x1887], [0x18A7]), ([0x18AA], [0x18F4]), ([0x1900], [0x191D]),
    ([0x1950], [0x196C]), ([0x1970], [0x1973]), ([0x1980], [0x19AA]), ([0x19B0], [0x19C8]),
    ([0x1A00], [0x1A15]), ([0x1A20], [0x1A53]), ([0x1AA7], [0x1B32]), ([0x1B45], [0x1B4A]),
    ([0x1B83], [0x1B9F]), ([0x1BAE], [0x1BAE]), ([0x1BBA], [0x1BE4]), ([0x1C00], [0x1C22]),
    ([0x1C4D], [0x1C4E]), ([0x1C5A], [0x1C7C]), ([0x1C80], [0x1C87]), ([0x1CE9], [0x1CEB]),
    ([0x1CEE], [0x1CF0]), ([0x1CF5], [0x1CF5]), ([0x1D00], [0x1DBE]), ([0x1E00], [0x1F14]),
    ([0x1F18], [0x1F1C]), ([0x1F20], [0x1F44]), ([0x1F48], [0x1F4C]), ([0x1F50], [0x1F56]),
    ([0x1F59], [0x1F59]), ([0x1F5D], [0x1F7C]), ([0x1F80], [0x1FB3]), ([0x1FB6], [0x1FBB]),
    ([0x1FBE], [0x1FC3]), ([0x1FC6], [0x1FCB]), ([0x1FD0], [0x1FD2]), ([0x1FD6], [0x1FDA]),
    ([0x1FE0], [0x1FEB]), ([0x1FF2], [0x1FF3]), ([0x1FF6], [0x1FFB]), ([0x2071], [0x2071]),
    ([0x2090], [0x209B]), ([0x2102], [0x2102]), ([0x210A], [0x2112]), ([0x2115], [0x211C]),
    ([0x2124], [0x2124]), ([0x2128], [0x212C]), ([0x212F], [0x2138]), ([0x213C], [0x213E]),
    ([0x2145], [0x2148]), ([0x214E], [0x2183]), ([0x2C00], [0x2C2D]), ([0x2C30], [0x2C5D]),
    ([0x2C60], [0x2CE3]), ([0x2CEB], [0x2CED]), ([0x2CF2], [0x2CF2]), ([0x2D00], [0x2D24]),
    ([0x2D27], [0x2D27]), ([0x2D30], [0x2D66]), ([0x2D6F], [0x2D95]), ([0x2DA0], [0x2DA5]),
    ([0x2DA8], [0x2DAD]), ([0x2DB0], [0x2DB5]), ([0x2DB8], [0x2DBD]), ([0x2DC0], [0x2DC5]),
    ([0x2DC8], [0x2DCD]), ([0x2DD0], [0x2DD5]), ([0x2DD8], [0x2DDD]), ([0x2E2F], [0x3005]),
    ([0x3031], [0x3034]), ([0x303B], [0x303B]), ([0x3041], [0x3095]), ([0x309D], [0x309E]),
    ([0x30A1], [0x30F9]), ([0x30FC], [0x30FE]), ([0x3105], [0x312D]), ([0x3131], [0x318D]),
    ([0x31A0], [0x31B9]), ([0x31F0], [0x31FE]), ([0x3400], [0x3400]), ([0x4E00], [0x4E00]),
    ([0xA000], [0xA48B]), ([0xA4D0], [0xA4FC]), ([0xA500], [0xA60B]), ([0xA610], [0xA61E]),
    ([0xA62A], [0xA62A]), ([0xA640], [0xA66D]), ([0xA67F], [0xA69C]), ([0xA6A0], [0xA6E4]),
    ([0xA717], [0xA71E]), ([0xA722], [0xA787]), ([0xA78B], [0xA7AD]), ([0xA7B0], [0xA7B6]),
    ([0xA7F7], [0xA800]), ([0xA803], [0xA804]), ([0xA807], [0xA809]), ([0xA80C], [0xA821]),
    ([0xA840], [0xA872]), ([0xA882], [0xA8B2]), ([0xA8F2], [0xA8F6]), ([0xA8FB], [0xA8FB]),
    ([0xA90A], [0xA924]), ([0xA930], [0xA945]), ([0xA960], [0xA97B]), ([0xA984], [0xA9B1]),
    ([0xA9CF], [0xA9E3]), ([0xA9E6], [0xA9EE]), ([0xA9FA], [0xA9FD]), ([0xAA00], [0xAA27]),
    ([0xAA40], [0xAA41]), ([0xAA44], [0xAA4A]), ([0xAA60], [0xAA75]), ([0xAA7A], [0xAAAE]),
    ([0xAAB1], [0xAAB5]), ([0xAAB9], [0xAABC]), ([0xAAC0], [0xAAC0]), ([0xAADB], [0xAADC]),
    ([0xAAE0], [0xAAE9]), ([0xAAF2], [0xAAF3]), ([0xAB01], [0xAB05]), ([0xAB09], [0xAB0D]),
    ([0xAB11], [0xAB15]), ([0xAB20], [0xAB25]), ([0xAB28], [0xAB2D]), ([0xAB30], [0xAB59]),
    ([0xAB5C], [0xAB64]), ([0xAB70], [0xABE1]), ([0xAC00], [0xAC00]), ([0xD7B0], [0xD7C5]),
    ([0xD7CB], [0xD7FA]), ([0xF900], [0xFA6C]), ([0xFA70], [0xFAD8]), ([0xFB00], [0xFB05]),
    ([0xFB13], [0xFB16]), ([0xFB1D], [0xFB27]), ([0xFB2A], [0xFB35]), ([0xFB38], [0xFB3B]),
    ([0xFB3E], [0xFB40]), ([0xFB43], [0xFB43]), ([0xFB46], [0xFBB0]), ([0xFBD3], [0xFD3C]),
    ([0xFD50], [0xFD8E]), ([0xFD92], [0xFDC6]), ([0xFDF0], [0xFDFA]), ([0xFE70], [0xFE73]),
    ([0xFE76], [0xFEFB]), ([0xFF21], [0xFF39]), ([0xFF41], [0xFF59]), ([0xFF66], [0xFFBD]),
    ([0xFFC2], [0xFFC6]), ([0xFFCA], [0xFFCE]), ([0xFFD2], [0xFFD6]), ([0xFFDA], [0xFFDB]),
    ([0x1000, 0x30], [0x1000, 0x41]), ([0x1000, 0x44], [0x1002, 0x35]),
    ([0x1002, 0x38], [0x1003, 0x39]), ([0x1003, 0x43], [0x1003, 0x43]),
    ([0x1003, 0x46], [0x1004, 0x43]), ([0x1005, 0x30], [0x1005, 0x43]),
    ([0x1008, 0x30], [0x100F, 0x39]), ([0x1028, 0x30], [0x1029, 0x42]),
    ([0x102A, 0x30], [0x102C, 0x46]), ([0x1030, 0x30], [0x1031, 0x45]),
    ([0x1032, 0x44], [0x1033, 0x46]), ([0x1034, 0x32], [0x1034, 0x38]),
    ([0x1035, 0x30], [0x1037, 0x34]), ([0x1038, 0x30], [0x1039, 0x43]),
    ([0x103A, 0x30], [0x103C, 0x32]), ([0x103C, 0x38], [0x103C, 0x45]),
    ([0x1040, 0x30], [0x1049, 0x43]), ([0x104B, 0x30], [0x104D, 0x32]),
    ([0x104D, 0x38], [0x104F, 0x41]), ([0x1050, 0x30], [0x1052, 0x36]),
    ([0x1053, 0x30], [0x1056, 0x32]), ([0x1060, 0x30], [0x1073, 0x35]),
    ([0x1074, 0x30], [0x1075, 0x34]), ([0x1076, 0x30], [0x1076, 0x36]),
    ([0x1080, 0x30], [0x1080, 0x34]), ([0x1080, 0x38], [0x1083, 0x34]),
    ([0x1083, 0x37], [0x1083, 0x37]), ([0x1083, 0x43], [0x1085, 0x34]),
    ([0x1086, 0x30], [0x1087, 0x35]), ([0x1088, 0x30], [0x1089, 0x44]),
    ([0x108E, 0x30], [0x108F, 0x31]), ([0x108F, 0x34], [0x108F, 0x34]),
    ([0x1090, 0x30], [0x1091, 0x34]), ([0x1092, 0x30], [0x1093, 0x38]),
    ([0x1098, 0x30], [0x109B, 0x36]), ([0x109B, 0x45], [0x109B, 0x45]),
    ([0x10A0, 0x30], [0x10A1, 0x32]), ([0x10A1, 0x35], [0x10A1, 0x36]),
    ([0x10A1, 0x39], [0x10A3, 0x32]), ([0x10A6, 0x30], [0x10A7, 0x42]),
    ([0x10A8, 0x30], [0x10A9, 0x42]), ([0x10AC, 0x30], [0x10AC, 0x36]),
    ([0x10AC, 0x39], [0x10AE, 0x33]), ([0x10B0, 0x30], [0x10B3, 0x34]),
    ([0x10B4, 0x30], [0x10B5, 0x34]), ([0x10B6, 0x30], [0x10B7, 0x31]),
    ([0x10B8, 0x30], [0x10B9, 0x30]), ([0x10C0, 0x30], [0x10C4, 0x37]),
    ([0x10C8, 0x30], [0x10CB, 0x31]), ([0x10CC, 0x30], [0x10CF, 0x31]),
    ([0x1100, 0x33], [0x1103, 0x36]), ([0x1108, 0x33], [0x110A, 0x45]),
    ([0x110D, 0x30], [0x110E, 0x37]), ([0x1110, 0x33], [0x1112, 0x35]),
    ([0x1115, 0x30], [0x1117, 0x31]), ([0x1117, 0x36], [0x111B, 0x31]),
    ([0x111C, 0x31], [0x111C, 0x33]), ([0x111D, 0x41], [0x111D, 0x41]),
    ([0x1120, 0x30], [0x1121, 0x30]), ([0x1121, 0x33], [0x1122, 0x41]),
    ([0x1128, 0x30], [0x1128, 0x35]), ([0x1128, 0x38], [0x1128, 0x43]),
    ([0x1128, 0x46], [0x1129, 0x43]), ([0x1129, 0x46], [0x112A, 0x37]),
    ([0x112B, 0x30], [0x112D, 0x44]), ([0x1130, 0x35], [0x1130, 0x42]),
    ([0x1130, 0x46], [0x1130, 0x46]), ([0x1131, 0x33], [0x1132, 0x37]),
    ([0x1132, 0x41], [0x1132, 0x46]), ([0x1133, 0x32], [0x1133, 0x32]),
    ([0x1133, 0x35], [0x1133, 0x38]), ([0x1133, 0x44], [0x1133, 0x44]),
    ([0x1135, 0x44], [0x1136, 0x30]), ([0x1140, 0x30], [0x1143, 0x33]),
    ([0x1144, 0x37], [0x1144, 0x39]), ([0x1148, 0x30], [0x114A, 0x45]),
    ([0x114C, 0x34], [0x114C, 0x34]), ([0x114C, 0x37], [0x115A, 0x44]),
    ([0x115D, 0x38], [0x115D, 0x41]), ([0x1160, 0x30], [0x1162, 0x45]),
    ([0x1164, 0x34], [0x116A, 0x39]), ([0x1170, 0x30], [0x1171, 0x38]),
    ([0x118A, 0x30], [0x118D, 0x45]), ([0x118F, 0x46], [0x118F, 0x46]),
    ([0x11A0, 0x42], [0x11A3, 0x31]), ([0x11A3, 0x41], [0x11A3, 0x41]),
    ([0x11A5, 0x43], [0x11A8, 0x32]), ([0x11A8, 0x36], [0x11A8, 0x38]),
    ([0x11AC, 0x30], [0x11AF, 0x37]), ([0x11C0, 0x30], [0x11C0, 0x37]),
    ([0x11C0, 0x41], [0x11C2, 0x44]), ([0x11C4, 0x30], [0x11C8, 0x45]),
    ([0x11D0, 0x30], [0x11D0, 0x35]), ([0x11D0, 0x38], [0x11D0, 0x38]),
    ([0x11D0, 0x42], [0x11D2, 0x46]), ([0x11D4, 0x36], [0x1239, 0x38]),
    ([0x1248, 0x30], [0x1254, 0x32]), ([0x1300, 0x30], [0x1342, 0x44]),
    ([0x1440, 0x30], [0x1464, 0x35]), ([0x1680, 0x30], [0x16A3, 0x37]),
    ([0x16A4, 0x30], [0x16A5, 0x44]), ([0x16AD, 0x30], [0x16AE, 0x43]),
    ([0x16B0, 0x30], [0x16B2, 0x45]), ([0x16B4, 0x30], [0x16B4, 0x32]),
    ([0x16B6, 0x33], [0x16B7, 0x36]), ([0x16B7, 0x44], [0x16B8, 0x45]),
    ([0x16F0, 0x30], [0x16F4, 0x33]), ([0x16F5, 0x30], [0x16F9, 0x45]),
    ([0x16FE, 0x30], [0x16FE, 0x30]), ([0x1700, 0x30], [0x1700, 0x30]),
    ([0x1880, 0x30], [0x18AF, 0x31]), ([0x1B00, 0x30], [0x1B11, 0x44]),
    ([0x1B17, 0x30], [0x1B2F, 0x41]), ([0x1BC0, 0x30], [0x1BC6, 0x39]),
    ([0x1BC7, 0x30], [0x1BC7, 0x42]), ([0x1BC8, 0x30], [0x1BC8, 0x37]),
    ([0x1BC9, 0x30], [0x1BC9, 0x38]), ([0x1D40, 0x30], [0x1D45, 0x33]),
    ([0x1D45, 0x36], [0x1D49, 0x42]), ([0x1D49, 0x45], [0x1D49, 0x45]),
    ([0x1D4A, 0x32], [0x1D4A, 0x35]), ([0x1D4A, 0x39], [0x1D4A, 0x42]),
    ([0x1D4A, 0x45], [0x1D4B, 0x38]), ([0x1D4B, 0x42], [0x1D4C, 0x32]),
    ([0x1D4C, 0x35], [0x1D50, 0x34]), ([0x1D50, 0x37], [0x1D50, 0x39]),
    ([0x1D50, 0x44], [0x1D51, 0x33]), ([0x1D51, 0x36], [0x1D51, 0x42]),
    ([0x1D51, 0x45], [0x1D53, 0x38]), ([0x1D53, 0x42], [0x1D53, 0x44]),
    ([0x1D54, 0x30], [0x1D54, 0x33]), ([0x1D54, 0x36], [0x1D54, 0x46]),
    ([0x1D55, 0x32], [0x1D6A, 0x34]), ([0x1D6A, 0x38], [0x1D6B, 0x46]),
    ([0x1D6C, 0x32], [0x1D6D, 0x39]), ([0x1D6D, 0x43], [0x1D6F, 0x39]),
    ([0x1D6F, 0x43], [0x1D71, 0x33]), ([0x1D71, 0x36], [0x1D73, 0x33]),
    ([0x1D73, 0x36], [0x1D74, 0x44]), ([0x1D75, 0x30], [0x1D76, 0x44]),
    ([0x1D77, 0x30], [0x1D78, 0x37]), ([0x1D78, 0x41], [0x1D7A, 0x37]),
    ([0x1D7A, 0x41], [0x1D7C, 0x31]), ([0x1D7C, 0x34], [0x1D7C, 0x41]),
    ([0x1E80, 0x30], [0x1E8C, 0x33]), ([0x1E90, 0x30], [0x1E94, 0x32]),
    ([0x1EE0, 0x30], [0x1EE0, 0x32]), ([0x1EE0, 0x35], [0x1EE1, 0x45]),
    ([0x1EE2, 0x31], [0x1EE2, 0x31]), ([0x1EE2, 0x34], [0x1EE2, 0x34]),
    ([0x1EE2, 0x39], [0x1EE3, 0x31]), ([0x1EE3, 0x34], [0x1EE3, 0x36]),
    ([0x1EE3, 0x39], [0x1EE3, 0x39]), ([0x1EE4, 0x32], [0x1EE4, 0x32]),
    ([0x1EE4, 0x39], [0x1EE4, 0x39]), ([0x1EE4, 0x44], [0x1EE4, 0x45]),
    ([0x1EE5, 0x31], [0x1EE5, 0x31]), ([0x1EE5, 0x34], [0x1EE5, 0x34]),
    ([0x1EE5, 0x39], [0x1EE5, 0x39]), ([0x1EE5, 0x44], [0x1EE5, 0x44]),
    ([0x1EE6, 0x31], [0x1EE6, 0x31]), ([0x1EE6, 0x34], [0x1EE6, 0x39]),
    ([0x1EE6, 0x43], [0x1EE7, 0x31]), ([0x1EE7, 0x34], [0x1EE7, 0x36]),
    ([0x1EE7, 0x39], [0x1EE7, 0x42]), ([0x1EE7, 0x45], [0x1EE8, 0x38]),
    ([0x1EE8, 0x42], [0x1EE9, 0x41]), ([0x1EEA, 0x31], [0x1EEA, 0x32]),
    ([0x1EEA, 0x35], [0x1EEA, 0x38]), ([0x1EEA, 0x42], [0x1EEB, 0x41]),
    ([0x2000, 0x30], [0x2000, 0x30]), ([0x2A70, 0x30], [0x2A70, 0x30]),
    ([0x2B74, 0x30], [0x2B74, 0x30]), ([0x2B82, 0x30], [0x2B82, 0x30]),
    ([0x2CEB, 0x30], [0x2CEB, 0x30]), ([0x2F80, 0x30], [0x2FA1, 0x44])
   ]"

fun inLetterRanges :: "(jsstring \<times> jsstring) list \<Rightarrow> jsstring \<Rightarrow> bool" where
  "inLetterRanges [] c = False"
| "inLetterRanges ((lo, hi) # rs) c =
     (if string_le lo c then (if string_le c hi then True else inLetterRanges rs c) else False)"

definition isLetter :: "jsstring option \<Rightarrow> bool" where
  "isLetter character =
     (case character of None \<Rightarrow> False
      | Some c \<Rightarrow> (string_le [0x0041] c \<and> string_le c [0x0059]) \<or> inLetterRanges letterRanges c)"

section \<open>Lexes\<close>

datatype LexType =
    LeftCurlyBracket | RightCurlyBracket | LeftSquareBracket | RightSquareBracket
  | LeftAngleBracket | RightAngleBracket | LeftParenthesis | RightParenthesis
  | Letters | SingleQuote | DoubleQuote | Digits | Comma | Colon | Semicolon
  | ExclamationPoint | Backslash | ForwardSlash | QuestionMark | Dash | Plus | EqualsSign
  | Period | Underscore | Ampersand | VerticalBar | Space | Tab | CarriageReturn | NewLine
  | CarriageReturnNewLine | Asterisk | Percent | Hash | Unrecognized

record Lex =
  lex_text :: "jsstring option"
  lex_startIndex :: int
  lex_type :: LexType

definition Lex_toString :: "Lex \<Rightarrow> jsstring option" where
  "Lex_toString l = lex_text l"

text \<open>\<open>this._text.length\<close> raises a TypeError on an undefined text: \<open>None\<close>.\<close>

definition Lex_getLength :: "Lex \<Rightarrow> int option" where
  "Lex_getLength l = (case lex_text l of None \<Rightarrow> None | Some t \<Rightarrow> Some (int (length t)))"

definition Lex_getType :: "Lex \<Rightarrow> LexType" where
  "Lex_getType l = lex_type l"

definition Lex_isWhitespace :: "Lex \<Rightarrow> bool" where
  "Lex_isWhitespace l =
     (case lex_type l of LexType.Space \<Rightarrow> True | LexType.Tab \<Rightarrow> True
      | LexType.CarriageReturn \<Rightarrow> True | _ \<Rightarrow> False)"

definition Lex_isNewLine :: "Lex \<Rightarrow> bool" where
  "Lex_isNewLine l =
     (case lex_type l of LexType.CarriageReturnNewLine \<Rightarrow> True | LexType.NewLine \<Rightarrow> True
      | _ \<Rightarrow> False)"

definition Lex_new :: "jsstring option \<Rightarrow> int \<Rightarrow> LexType \<Rightarrow> Lex" where
  "Lex_new t i ty = \<lparr>lex_text = t, lex_startIndex = i, lex_type = ty\<rparr>"

definition LeftCurlyBracket :: "int \<Rightarrow> Lex" where
  "LeftCurlyBracket startIndex = Lex_new (Some (js ''{'')) startIndex LexType.LeftCurlyBracket"

definition RightCurlyBracket :: "int \<Rightarrow> Lex" where
  "RightCurlyBracket startIndex = Lex_new (Some (js ''}'')) startIndex LexType.RightCurlyBracket"

definition LeftSquareBracket :: "int \<Rightarrow> Lex" where
  "LeftSquareBracket startIndex = Lex_new (Some (js ''['')) startIndex LexType.LeftSquareBracket"

definition RightSquareBracket :: "int \<Rightarrow> Lex" where
  "RightSquareBracket startIndex = Lex_new (Some (js '']'')) startIndex LexType.RightSquareBracket"

definition LeftAngleBracket :: "int \<Rightarrow> Lex" where
  "LeftAngleBracket startIndex = Lex_new (Some (js ''<'')) startIndex LexType.LeftAngleBracket"

definition RightAngleBracket :: "int \<Rightarrow> Lex" where
  "RightAngleBracket startIndex = Lex_new (Some (js ''>'')) startIndex LexType.RightAngleBracket"

definition LeftParenthesis :: "int \<Rightarrow> Lex" where
  "LeftParenthesis startIndex = Lex_new (Some (js ''('')) startIndex LexType.LeftParenthesis"

definition RightParenthesis :: "int \<Rightarrow> Lex" where
  "RightParenthesis startIndex = Lex_new (Some (js '')'')) startIndex LexType.RightParenthesis"

definition SingleQuote :: "int \<Rightarrow> Lex" where
  "SingleQuote startIndex = Lex_new (Some [0x27]) startIndex LexType.SingleQuote"

definition DoubleQuote :: "int \<Rightarrow> Lex" where
  "DoubleQuote startIndex = Lex_new (Some [0x22]) startIndex LexType.DoubleQuote"

definition Comma :: "int \<Rightarrow> Lex" where
  "Comma startIndex = Lex_new (Some (js '','')) startIndex LexType.Comma"

definition Colon :: "int \<Rightarrow> Lex" where
  "Colon startIndex = Lex_new (Some (js '':'')) startIndex LexType.Colon"

definition Semicolon :: "int \<Rightarrow> Lex" where
  "Semicolon startIndex = Lex_new (Some (js '';'')) startIndex LexType.Semicolon"

definition ExclamationPoint :: "int \<Rightarrow> Lex" where
  "ExclamationPoint startIndex = Lex_new (Some (js ''!'')) startIndex LexType.ExclamationPoint"

definition Backslash :: "int \<Rightarrow> Lex" where
  "Backslash startIndex = Lex_new (Some [0x5C]) startIndex LexType.Backslash"

definition ForwardSlash :: "int \<Rightarrow> Lex" where
  "ForwardSlash startIndex = Lex_new (Some (js ''/'')) startIndex LexType.ForwardSlash"

definition QuestionMark :: "int \<Rightarrow> Lex" where
  "QuestionMark startIndex = Lex_new (Some (js ''?'')) startIndex LexType.QuestionMark"

definition Dash :: "int \<Rightarrow> Lex" where
  "Dash startIndex = Lex_new (Some (js ''-'')) startIndex LexType.Dash"

definition Plus :: "int \<Rightarrow> Lex" where
  "Plus startIndex = Lex_new (Some (js ''+'')) startIndex LexType.Plus"

definition EqualsSign :: "int \<Rightarrow> Lex" where
  "EqualsSign startIndex = Lex_new (Some (js ''='')) startIndex LexType.EqualsSign"

definition Period :: "int \<Rightarrow> Lex" where
  "Period startIndex = Lex_new (Some (js ''.'')) startIndex LexType.Period"

definition Underscore :: "int \<Rightarrow> Lex" where
  "Underscore startIndex = Lex_new (Some (js ''_'')) startIndex LexType.Underscore"

definition Ampersand :: "int \<Rightarrow> Lex" where
  "Ampersand startIndex = Lex_new (Some (js ''&'')) startIndex LexType.Ampersand"

definition VerticalBar :: "int \<Rightarrow> Lex" where
  "VerticalBar startIndex = Lex_new (Some (js ''|'')) startIndex LexType.VerticalBar"

definition Space :: "int \<Rightarrow> Lex" where
  "Space startIndex = Lex_new (Some (js '' '')) startIndex LexType.Space"

definition Tab :: "int \<Rightarrow> Lex" where
  "Tab startIndex = Lex_new (Some [0x09]) startIndex LexType.Tab"

definition CarriageReturn :: "int \<Rightarrow> Lex" where
  "CarriageReturn startIndex = Lex_new (Some [0x0D]) startIndex LexType.CarriageReturn"

definition NewLine :: "int \<Rightarrow> Lex" where
  "NewLine startIndex = Lex_new (Some [0x0A]) startIndex LexType.NewLine"

definition CarriageReturnNewLine :: "int \<Rightarrow> Lex" where
  "CarriageReturnNewLine startIndex = Lex_new (Some [0x0D, 0x0A]) startIndex LexType.NewLine"

definition Asterisk :: "int \<Rightarrow> Lex" where
  "Asterisk startIndex = Lex_new (Some (js ''*'')) startIndex LexType.Asterisk"

definition Percent :: "int \<Rightarrow> Lex" where
  "Percent startIndex = Lex_new (Some (js ''%'')) startIndex LexType.Percent"

definition Hash :: "int \<Rightarrow> Lex" where
  "Hash startIndex = Lex_new (Some (js ''#'')) startIndex LexType.Hash"

definition Letters :: "jsstring option \<Rightarrow> int \<Rightarrow> Lex" where
  "Letters t startIndex = Lex_new t startIndex LexType.Letters"

definition Digits :: "jsstring option \<Rightarrow> int \<Rightarrow> Lex" where
  "Digits t startIndex = Lex_new t startIndex LexType.Digits"

definition Unrecognized :: "jsstring option \<Rightarrow> int \<Rightarrow> Lex" where
  "Unrecognized character startIndex = Lex_new character startIndex LexType.Unrecognized"

section \<open>The lexer\<close>

record Lexer =
  iterator :: "codeunit StringIterator"
  characterStartIndexOffset :: int
  currentLex :: "Lex option"

text \<open>The constructor; an absent \<open>startIndex\<close> takes its default, 0.\<close>

definition Lexer_new :: "jsstring \<Rightarrow> int option \<Rightarrow> Lexer" where
  "Lexer_new txt startIndex =
     \<lparr>iterator = StringIterator_new txt None None,
      characterStartIndexOffset = (case startIndex of None \<Rightarrow> 0 | Some i \<Rightarrow> i),
      currentLex = None\<rparr>"

definition Lexer_hasStarted :: "Lexer \<Rightarrow> bool" where
  "Lexer_hasStarted l = StringIterator_hasStarted (iterator l)"

definition Lexer_hasCurrent :: "Lexer \<Rightarrow> bool" where
  "Lexer_hasCurrent l = isDefined (currentLex l)"

definition Lexer_getCurrent :: "Lexer \<Rightarrow> Lex option" where
  "Lexer_getCurrent l = currentLex l"

text \<open>
  The numbers of JavaScript are IEEE doubles, and \<open>+\<close> on them rounds. Every integer of
  magnitude at most \<open>2\<^sup>5\<^sup>3\<close> is a double; a larger one is rounded to 53 significant bits,
  to the nearest such number and, half way between two, to the one whose significand is
  even. \<open>toDouble\<close> is this rounding on the integers (below \<open>2\<^sup>1\<^sup>0\<^sup>2\<^sup>4\<close> in magnitude, where
  the doubles end).
\<close>

fun bitLength :: "nat \<Rightarrow> nat" where
  "bitLength n = (if n = 0 then 0 else Suc (bitLength (n div 2)))"

declare bitLength.simps [simp del]

definition roundToMultiple :: "nat \<Rightarrow> nat \<Rightarrow> nat" where
  "roundToMultiple u n =
     (let q = n div u; r = n mod u
      in if 2 * r < u then q * u
         else if u < 2 * r then (q + 1) * u
         else if even q then q * u else (q + 1) * u)"

definition toDouble :: "int \<Rightarrow> int" where
  "toDouble x =
     (if \<bar>x\<bar> \<le> 2 ^ 53 then x
      else sgn x * int (roundToMultiple (2 ^ (bitLength (nat \<bar>x\<bar>) - 53)) (nat \<bar>x\<bar>)))"

text \<open>
  \<open>getCurrentCharacterStartIndex\<close> adds the offset to the cursor's \<open>currentIndex\<close> property,
  which is undefined when the cursor has no current character; the sum is then not a number
  (\<open>None\<close>).
\<close>

definition Lexer_getCurrentCharacterStartIndex :: "Lexer \<Rightarrow> int option" where
  "Lexer_getCurrentCharacterStartIndex l =
     (case StringIterator_currentIndex (iterator l) of None \<Rightarrow> None
      | Some i \<Rightarrow> Some (toDouble (i + characterStartIndexOffset l)))"

definition Lexer_hasCurrentCharacter :: "Lexer \<Rightarrow> bool" where
  "Lexer_hasCurrentCharacter l = StringIterator_hasCurrent (iterator l)"

text \<open>The current character is a string of one code unit, or undefined.\<close>

definition Lexer_getCurrentCharacter :: "Lexer \<Rightarrow> jsstring option" where
  "Lexer_getCurrentCharacter l =
     (case StringIterator_getCurrent (iterator l) of None \<Rightarrow> None | Some c \<Rightarrow> Some [c])"

definition Lexer_nextCharacter :: "Lexer \<Rightarrow> bool \<times> Lexer" where
  "Lexer_nextCharacter l =
     (let (b, it') = StringIterator_next (iterator l) in (b, l\<lparr>iterator := it'\<rparr>))"

text \<open>
  \<open>readWhile\<close>: the loop \<open>while (iterator.next() && condition(iterator.getCurrent()))\<close>
  appends the current character to the result. The measure of the loop is the distance of the
  cursor from its end bound, plus one for a cursor that has not started.
\<close>

definition StringIterator_remaining :: "'a StringIterator \<Rightarrow> nat" where
  "StringIterator_remaining it =
     (if it_started it then 0 else 1) +
     (if StringIterator_step it > 0 then nat (it_endIndex it - it_currentIndex it)
      else nat (it_currentIndex it - it_endIndex it))"

definition currentCharacter :: "codeunit StringIterator \<Rightarrow> jsstring option" where
  "currentCharacter it =
     (case StringIterator_getCurrent it of None \<Rightarrow> None | Some c \<Rightarrow> Some [c])"

function readWhile_loop ::
  "(jsstring option \<Rightarrow> bool) \<Rightarrow> jsstring option \<Rightarrow> codeunit StringIterator
     \<Rightarrow> jsstring option \<times> codeunit StringIterator" where
  "readWhile_loop condition result it =
     (let (b, it') = StringIterator_next it
      in if b \<and> condition (currentCharacter it')
         then readWhile_loop condition
                (Some (toStringValue result @ toStringValue (currentCharacter it'))) it'
         else (result, it'))"
  by pat_completeness auto
termination
proof (relation "measure (\<lambda>(condition, result, it). StringIterator_remaining it)")
  show "wf (measure (\<lambda>(condition, result, it). StringIterator_remaining it))"
    by simp
next
  fix condition :: "jsstring option \<Rightarrow> bool" and result :: "jsstring option"
    and it :: "codeunit StringIterator" and x :: "bool \<times> codeunit StringIterator"
    and b :: bool and it' :: "codeunit StringIterator"
  assume "x = StringIterator_next it" "(b, it') = x" "b \<and> condition (currentCharacter it')"
  then show "((condition, Some (toStringValue result @ toStringValue (currentCharacter it')), it'),
              (condition, result, it))
             \<in> measure (\<lambda>(condition, result, it). StringIterator_remaining it)"
    by (auto simp: StringIterator_next_def StringIterator_remaining_def StringIterator_hasMore_def
          StringIterator_step_def Let_def split: if_splits)
qed

declare readWhile_loop.simps [simp del]

definition readWhile ::
  "codeunit StringIterator \<Rightarrow> (jsstring option \<Rightarrow> bool)
     \<Rightarrow> jsstring option \<times> codeunit StringIterator" where
  "readWhile it condition = readWhile_loop condition (currentCharacter it) it"

definition readLetters :: "codeunit StringIterator \<Rightarrow> jsstring option \<times> codeunit StringIterator" where
  "readLetters it = readWhile it isLetter"

definition readDigits :: "codeunit StringIterator \<Rightarrow> jsstring option \<times> codeunit StringIterator" where
  "readDigits it = readWhile it isDigit"

text \<open>
  The body shared by the one-character cases of the switch:
  \<open>this._currentLex = token; this.nextCharacter(); break;\<close>
\<close>

definition Lexer_single :: "Lex \<Rightarrow> Lexer \<Rightarrow> Lexer" where
  "Lexer_single token l = snd (Lexer_nextCharacter (l\<lparr>currentLex := Some token\<rparr>))"

text \<open>
  The switch of \<open>next\<close> on the current character \<open>c\<close>, for the start index \<open>i\<close> of the lex.
  The cases are in the order of the source; the carriage-return case advances the cursor
  once to look at the character that follows, and its condition
  \<open>!this.nextCharacter() || this.getCurrentCharacter() !== "\n"\<close> is written as the two
  tests it evaluates in turn.
\<close>

definition Lexer_switch :: "jsstring option \<Rightarrow> int \<Rightarrow> Lexer \<Rightarrow> Lexer" where
  "Lexer_switch c i l =
    (if c = Some (js ''{'') then Lexer_single (LeftCurlyBracket i) l
     else if c = Some (js ''}'') then Lexer_single (RightCurlyBracket i) l
     else if c = Some (js ''['') then Lexer_single (LeftSquareBracket i) l
     else if c = Some (js '']'') then Lexer_single (RightSquareBracket i) l
     else if c = Some (js ''('') then Lexer_single (LeftParenthesis i) l
     else if c = Some (js '')'') then Lexer_single (RightParenthesis i) l
     else if c = Some (js ''<'') then Lexer_single (LeftAngleBracket i) l
     else if c = Some (js ''>'') then Lexer_single (RightAngleBracket i) l
     else if c = Some [0x22] then Lexer_single (DoubleQuote i) l
     else if c = Some [0x27] then Lexer_single (SingleQuote i) l
     else if c = Some (js ''-'') then Lexer_single (Dash i) l
     else if c = Some (js ''+'') then Lexer_single (Plus i) l
     else if c = Some (js '','') then Lexer_single (Comma i) l
     else if c = Some (js '':'') then Lexer_single (Colon i) l
     else if c = Some (js '';'') then Lexer_single (Semicolon i) l
     else if c = Some (js ''!'') then Lexer_single (ExclamationPoint i) l
     else if c = Some [0x5C] then Lexer_single (Backslash i) l
     else if c = Some (js ''/'') then Lexer_single (ForwardSlash i) l
     else if c = Some (js ''?'') then Lexer_single (QuestionMark i) l
     else if c = Some (js ''='') then Lexer_single (EqualsSign i) l
     else if c = Some (js ''.'') then Lexer_single (Period i) l
     else if c = Some (js ''_'') then Lexer_single (Underscore i) l
     else if c = Some (js ''&'') then Lexer_single (Ampersand i) l
     else if c = Some (js '' '') then Lexer_single (Space i) l
     else if c = Some [0x09] then Lexer_single (Tab i) l
     else if c = Some [0x0D] then
       (let (b, l') = Lexer_nextCharacter l
        in if \<not> b then l'\<lparr>currentLex := Some (CarriageReturn i)\<rparr>
           else if Lexer_getCurrentCharacter l' \<noteq> Some [0x0A]
           then l'\<lparr>currentLex := Some (CarriageReturn i)\<rparr>
           else Lexer_single (CarriageReturnNewLine i) l')
     else if c = Some [0x0A] then Lexer_single (NewLine i) l
     else if c = Some (js ''*'') then Lexer_single (Asterisk i) l
     else if c = Some (js ''%'') then Lexer_single (Percent i) l
     else if c = Some (js ''|'') then Lexer_single (VerticalBar i) l
     else if c = Some (js ''#'') then Lexer_single (Hash i) l
     else if isLetter (Lexer_getCurrentCharacter l) then
       (let (t, it') = readLetters (iterator l)
        in l\<lparr>iterator := it', currentLex := Some (Letters t i)\<rparr>)
     else if isDigit (Lexer_getCurrentCharacter l) then
       (let (t, it') = readDigits (iterator l)
        in l\<lparr>iterator := it', currentLex := Some (Digits t i)\<rparr>)
     else Lexer_single (Unrecognized (Lexer_getCurrentCharacter l) i) l)"

text \<open>
  \<open>next\<close>. In the branch where the cursor has a current character, its \<open>currentIndex\<close>
  property is the cursor's index, so the start index of the lex is a number.
\<close>

definition Lexer_next :: "Lexer \<Rightarrow> bool \<times> Lexer" where
  "Lexer_next l =
     (let l1 = (if \<not> Lexer_hasStarted l then snd (Lexer_nextCharacter l) else l);
          l2 = (if Lexer_hasCurrentCharacter l1
                then (case Lexer_getCurrentCharacterStartIndex l1 of
                        Some currentLexStartIndex \<Rightarrow>
                          Lexer_switch (Lexer_getCurrentCharacter l1) currentLexStartIndex l1
                      | None \<Rightarrow> l1\<lparr>currentLex := None\<rparr>)
                else l1\<lparr>currentLex := None\<rparr>)
      in (Lexer_hasCurrent l2, l2))"

section \<open>Every lex consumes at least one character\<close>

lemma StringIterator_next_remaining_le:
  "StringIterator_remaining (snd (StringIterator_next it)) \<le> StringIterator_remaining it"
  by (auto simp: StringIterator_next_def StringIterator_remaining_def StringIterator_hasMore_def
        StringIterator_step_def Let_def)

lemma StringIterator_next_remaining_less:
  "StringIterator_hasCurrent it \<Longrightarrow>
   StringIterator_remaining (snd (StringIterator_next it)) < StringIterator_remaining it"
  by (auto simp: StringIterator_next_def StringIterator_remaining_def StringIterator_hasMore_def
        StringIterator_hasCurrent_def StringIterator_hasStarted_def
        StringIterator_step_def Let_def split: if_splits)

lemma readWhile_loop_remaining_le:
  "StringIterator_remaining (snd (readWhile_loop c r it)) \<le> StringIterator_remaining it"
proof (induction c r it rule: readWhile_loop.induct)
  case (1 condition result it)
  obtain b it' where n: "StringIterator_next it = (b, it')" by (cases "StringIterator_next it")
  have le: "StringIterator_remaining it' \<le> StringIterator_remaining it"
    using StringIterator_next_remaining_le[of it] n by simp
  show ?case
  proof (cases "b \<and> condition (currentCharacter it')")
    case True
    then show ?thesis using 1[OF n[symmetric] refl True] le n
      by (subst readWhile_loop.simps) (simp)
  next
    case False
    then show ?thesis using le n by (subst readWhile_loop.simps) auto
  qed
qed

lemma readWhile_loop_remaining_less:
  "StringIterator_hasCurrent it \<Longrightarrow>
   StringIterator_remaining (snd (readWhile_loop c r it)) < StringIterator_remaining it"
proof -
  assume h: "StringIterator_hasCurrent it"
  obtain b it' where n: "StringIterator_next it = (b, it')" by (cases "StringIterator_next it")
  have less: "StringIterator_remaining it' < StringIterator_remaining it"
    using StringIterator_next_remaining_less[OF h] n by simp
  show ?thesis
    using less n readWhile_loop_remaining_le[of c "Some (toStringValue r @ toStringValue (currentCharacter it'))" it']
    by (subst readWhile_loop.simps) (auto simp del: readWhile_loop.simps)
qed

lemma Lexer_single_remaining:
  "Lexer_hasCurrentCharacter l \<Longrightarrow>
   StringIterator_remaining (iterator (Lexer_single t l)) < StringIterator_remaining (iterator l)"
  using StringIterator_next_remaining_less[of "iterator l"]
  by (auto simp: Lexer_single_def Lexer_nextCharacter_def Lexer_hasCurrentCharacter_def
        split: prod.splits)

lemma Lexer_single_currentLex: "currentLex (Lexer_single t l) = Some t"
  by (simp add: Lexer_single_def Lexer_nextCharacter_def split: prod.splits)

lemma Lexer_switch_remaining:
  assumes "Lexer_hasCurrentCharacter l"
  shows "StringIterator_remaining (iterator (Lexer_switch c i l)) < StringIterator_remaining (iterator l)"
proof -
  have cr: "StringIterator_remaining (iterator (let (b, l') = Lexer_nextCharacter l
        in if \<not> b then l'\<lparr>currentLex := Some (CarriageReturn i)\<rparr>
           else if Lexer_getCurrentCharacter l' \<noteq> Some [0x0A]
           then l'\<lparr>currentLex := Some (CarriageReturn i)\<rparr>
           else Lexer_single (CarriageReturnNewLine i) l')) < StringIterator_remaining (iterator l)"
    using StringIterator_next_remaining_less[of "iterator l"] assms
      StringIterator_next_remaining_le[of "snd (StringIterator_next (iterator l))"]
    by (auto simp: Lexer_single_def Lexer_nextCharacter_def Lexer_hasCurrentCharacter_def
        split: prod.splits)
  have le: "StringIterator_remaining (iterator (let (t, it') = readLetters (iterator l)
        in l\<lparr>iterator := it', currentLex := Some (Letters t i)\<rparr>)) < StringIterator_remaining (iterator l)"
    using readWhile_loop_remaining_less[of "iterator l" isLetter "currentCharacter (iterator l)"] assms
    by (auto simp: readLetters_def readWhile_def Lexer_hasCurrentCharacter_def split: prod.splits)
  have di: "StringIterator_remaining (iterator (let (t, it') = readDigits (iterator l)
        in l\<lparr>iterator := it', currentLex := Some (Digits t i)\<rparr>)) < StringIterator_remaining (iterator l)"
    using readWhile_loop_remaining_less[of "iterator l" isDigit "currentCharacter (iterator l)"] assms
    by (auto simp: readDigits_def readWhile_def Lexer_hasCurrentCharacter_def split: prod.splits)
  note s = Lexer_single_remaining[OF assms]
  show ?thesis
    unfolding Lexer_switch_def
    using cr le di s by presburger
qed

lemma Lexer_next_remaining:
  assumes "Lexer_next l = (True, l')"
  shows "StringIterator_remaining (iterator l') < StringIterator_remaining (iterator l)"
proof -
  define l1 where "l1 = (if \<not> Lexer_hasStarted l then snd (Lexer_nextCharacter l) else l)"
  have le1: "StringIterator_remaining (iterator l1) \<le> StringIterator_remaining (iterator l)"
    using StringIterator_next_remaining_le[of "iterator l"]
    by (auto simp: l1_def Lexer_nextCharacter_def split: prod.splits)
  show ?thesis
  proof (cases "Lexer_hasCurrentCharacter l1")
    case True
    then obtain i where i: "Lexer_getCurrentCharacterStartIndex l1 = Some i"
      by (auto simp: Lexer_getCurrentCharacterStartIndex_def Lexer_hasCurrentCharacter_def
            StringIterator_currentIndex_def)
    have "l' = Lexer_switch (Lexer_getCurrentCharacter l1) i l1"
      using assms True i by (simp add: Lexer_next_def Let_def l1_def[symmetric])
    then show ?thesis
      using Lexer_switch_remaining[OF True, of "Lexer_getCurrentCharacter l1" i] le1 by simp
  next
    case False
    then have "fst (Lexer_next l) = False"
      by (simp add: Lexer_next_def Let_def l1_def[symmetric] Lexer_hasCurrent_def isDefined_def)
    then show ?thesis using assms by simp
  qed
qed

section \<open>Consuming a lexer: foreach and toArray of IteratorBase\<close>

text \<open>
  \<open>toArray\<close> pushes every value that \<open>foreach\<close> visits: the current value, when there is one,
  then the current value after each \<open>next()\<close> that returns true. The array is returned with the
  lexer in the state the loop leaves it in.
\<close>

function Lexer_foreach_loop :: "Lexer \<Rightarrow> Lex option list \<Rightarrow> Lex option list \<times> Lexer" where
  "Lexer_foreach_loop l result =
     (let (b, l') = Lexer_next l
      in if b then Lexer_foreach_loop l' (result @ [Lexer_getCurrent l']) else (result, l'))"
  by pat_completeness auto
termination
proof (relation "measure (\<lambda>(l, result). StringIterator_remaining (iterator l))")
  show "wf (measure (\<lambda>(l, result). StringIterator_remaining (iterator l)))"
    by simp
next
  fix l :: Lexer and result :: "Lex option list" and x :: "bool \<times> Lexer" and b :: bool
    and l' :: Lexer
  assume "x = Lexer_next l" "(b, l') = x" "b"
  then have "Lexer_next l = (True, l')" by simp
  then show "((l', result @ [Lexer_getCurrent l']), (l, result))
             \<in> measure (\<lambda>(l, result). StringIterator_remaining (iterator l))"
    using Lexer_next_remaining by simp
qed

declare Lexer_foreach_loop.simps [simp del]

definition Lexer_toArray :: "Lexer \<Rightarrow> Lex option list \<times> Lexer" where
  "Lexer_toArray l =
     Lexer_foreach_loop l (if Lexer_hasCurrent l then [Lexer_getCurrent l] else [])"

text \<open>The lexer after \<open>n\<close> calls of \<open>next()\<close>.\<close>

fun Lexer_advance :: "nat \<Rightarrow> Lexer \<Rightarrow> Lexer" where
  "Lexer_advance 0 l = l"
| "Lexer_advance (Suc n) l = Lexer_advance n (snd (Lexer_next l))"

lemma Lexer_advance_numeral [simp]:
  "Lexer_advance (numeral k) l = Lexer_advance (pred_numeral k) (snd (Lexer_next l))"
  by (simp add: numeral_eq_Suc)

section \<open>Counts\<close>

text \<open>
  The count given to \<open>skip\<close> and \<open>take\<close> is any number: \<open>take(0.5)\<close> and \<open>skip(NaN)\<close> are
  calls the code accepts. A number of the model is a rational or \<open>NaN\<close>. Every comparison
  with \<open>NaN\<close> is false and every difference with \<open>NaN\<close> is \<open>NaN\<close>; \<open>undefined\<close> converts to
  \<open>NaN\<close>. Differences and increments are those of the rationals: they are the ones of
  the doubles as long as operands and result are doubles, as they are on the integers up
  to \<open>2\<^sup>5\<^sup>3\<close> and on their halves, and beyond that a rounded count stays on the same side
  of every number of values it is compared with. The infinities are not modelled.
\<close>

datatype number = Num rat | NaN

definition number_less :: "number \<Rightarrow> number \<Rightarrow> bool" where
  "number_less a b = (case (a, b) of (Num x, Num y) \<Rightarrow> x < y | _ \<Rightarrow> False)"

definition number_lessEq :: "number \<Rightarrow> number \<Rightarrow> bool" where
  "number_lessEq a b = (case (a, b) of (Num x, Num y) \<Rightarrow> x \<le> y | _ \<Rightarrow> False)"

definition number_minus :: "number \<Rightarrow> number \<Rightarrow> number" where
  "number_minus a b = (case (a, b) of (Num x, Num y) \<Rightarrow> Num (x - y) | _ \<Rightarrow> NaN)"

definition number_increment :: "number \<Rightarrow> number" where
  "number_increment a = (case a of Num x \<Rightarrow> Num (x + 1) | NaN \<Rightarrow> NaN)"

definition toNumber :: "number option \<Rightarrow> number" where
  "toNumber v = (case v of None \<Rightarrow> NaN | Some n \<Rightarrow> n)"

text \<open>A number is truthy when it is neither 0 nor \<open>NaN\<close>; \<open>undefined\<close> is not truthy.\<close>

definition truthy :: "number option \<Rightarrow> bool" where
  "truthy v = (case v of Some (Num x) \<Rightarrow> x \<noteq> 0 | _ \<Rightarrow> False)"

definition ofInt :: "int \<Rightarrow> number" where
  "ofInt k = Num (of_int k)"

section \<open>The iterator family\<close>

text \<open>
  The iterator classes are one datatype, one constructor for each class, holding the
  fields of the class: the array list and \<open>_currentIndex\<close> of the two array-list
  iterators, the string cursor, the inner iterator and the condition, the counts
  \<open>_toSkip\<close>/\<open>_skipped\<close> and \<open>_toTake\<close>/\<open>_taken\<close>, the map function and \<open>_started\<close>,
  and the two iterators of a concatenation, the second of which is \<open>undefined\<close> when
  \<open>MapIterator.concatenate\<close> was given none. An element is a value or \<open>undefined\<close>
  (\<open>None\<close>); an absent argument (condition, count, map function, iterator) is \<open>None\<close>.

  An array-list iterator holds a reference to its array list and reads the list at every
  call. In \<open>ArrayListForwardIterator l i\<close>, \<open>l\<close> is the list of the \<open>_count\<close> first values of
  that array list at the time of the call: it stays the same from one call to the next as
  long as the array list is not modified, and a call of \<open>add\<close> on the array list between
  two calls makes it \<open>ArrayList_add l v\<close>.
\<close>

datatype 'a Iterator =
    ArrayListForwardIterator "'a option list" "int option"
  | ArrayListReverseIterator "'a option list" "int option"
  | StringIteratorOf "'a StringIterator"
  | WhereIterator "'a Iterator" "('a option \<Rightarrow> bool) option"
  | SkipIterator "'a Iterator" "number option" number
  | TakeIterator "'a Iterator" "number option" number
  | MapIterator "'a Iterator" "('a option \<Rightarrow> 'a option) option" bool
  | ConcatenateIterator "'a Iterator" "'a Iterator option"

definition ArrayList_add :: "'a option list \<Rightarrow> 'a option \<Rightarrow> 'a option list" where
  "ArrayList_add l v = l @ [v]"

definition ArrayList_getCount :: "'a option list \<Rightarrow> int" where
  "ArrayList_getCount l = int (length l)"

definition ArrayList_get :: "'a option list \<Rightarrow> int option \<Rightarrow> 'a option" where
  "ArrayList_get l i =
     (case i of None \<Rightarrow> None
      | Some n \<Rightarrow> if 0 \<le> n \<and> n < ArrayList_getCount l then l ! nat n else None)"

definition ArrayListForwardIterator_atEnd :: "'a option list \<Rightarrow> int option \<Rightarrow> bool" where
  "ArrayListForwardIterator_atEnd l i = (i = Some (ArrayList_getCount l))"

definition ArrayListReverseIterator_atEnd :: "'a option list \<Rightarrow> int option \<Rightarrow> bool" where
  "ArrayListReverseIterator_atEnd l i = (case i of None \<Rightarrow> False | Some n \<Rightarrow> n < 0)"

definition ArrayListForwardIterator_next :: "'a option list \<Rightarrow> int option \<Rightarrow> bool \<times> int option" where
  "ArrayListForwardIterator_next l i =
     (let i' = (case i of None \<Rightarrow> Some 0
                | Some n \<Rightarrow> if \<not> ArrayListForwardIterator_atEnd l i then Some (n + 1) else i)
      in (\<not> ArrayListForwardIterator_atEnd l i', i'))"

definition ArrayListReverseIterator_next :: "'a option list \<Rightarrow> int option \<Rightarrow> bool \<times> int option" where
  "ArrayListReverseIterator_next l i =
     (let i' = (case i of None \<Rightarrow> Some (ArrayList_getCount l - 1)
                | Some n \<Rightarrow> if \<not> ArrayListReverseIterator_atEnd l i then Some (n - 1) else i)
      in (\<not> ArrayListReverseIterator_atEnd l i', i'))"

text \<open>
  The private field \<open>_innerIterator\<close> of \<open>IteratorDecorator\<close>, and the assignments to
  the private counters of \<open>SkipIterator\<close> and \<open>TakeIterator\<close>.
\<close>

fun innerIterator :: "'a Iterator \<Rightarrow> 'a Iterator option" where
  "innerIterator (WhereIterator inner c) = Some inner"
| "innerIterator (SkipIterator inner toSkip skipped) = Some inner"
| "innerIterator (TakeIterator inner toTake taken) = Some inner"
| "innerIterator _ = None"

fun setInnerIterator :: "'a Iterator \<Rightarrow> 'a Iterator \<Rightarrow> 'a Iterator" where
  "setInnerIterator (WhereIterator inner c) inner' = WhereIterator inner' c"
| "setInnerIterator (SkipIterator inner toSkip skipped) inner' = SkipIterator inner' toSkip skipped"
| "setInnerIterator (TakeIterator inner toTake taken) inner' = TakeIterator inner' toTake taken"
| "setInnerIterator it inner' = it"

fun setSkipped :: "'a Iterator \<Rightarrow> number \<Rightarrow> 'a Iterator" where
  "setSkipped (SkipIterator inner toSkip skipped) k = SkipIterator inner toSkip k"
| "setSkipped it k = it"

fun setTaken :: "'a Iterator \<Rightarrow> number \<Rightarrow> 'a Iterator" where
  "setTaken (TakeIterator inner toTake taken) k = TakeIterator inner toTake k"
| "setTaken it k = it"

fun canTakeValue :: "'a Iterator \<Rightarrow> bool" where
  "canTakeValue (TakeIterator inner toTake taken) =
     (isDefined toTake \<and> number_lessEq taken (toNumber toTake))"
| "canTakeValue it = False"

text \<open>
  The methods are dynamically dispatched: \<open>this.hasCurrent()\<close> inside \<open>TakeIterator.next\<close> is
  the \<open>hasCurrent\<close> of \<open>TakeIterator\<close>, and \<open>super.hasCurrent()\<close> is the one of
  \<open>IteratorDecorator\<close>, which calls the inner iterator's. Each class is therefore a
  function of \<open>self\<close>, the dispatcher, and \<open>call\<close> below ties the knot. A call answers
  with its boolean result (\<open>False\<close> where the method has none), its value result
  (\<open>None\<close> where it has none) and the iterator after the call; it answers \<open>None\<close> when
  it returns nothing: when it raises the TypeError of a method call on \<open>undefined\<close>, or
  when it runs for ever. \<open>SkipValues\<close> is the private method of \<open>SkipIterator\<close> and
  \<open>WhereNextLoop\<close> the while loop of \<open>WhereIterator.next\<close>; the other classes have neither.
\<close>

datatype methodName = HasCurrent | Next | GetCurrent | SkipValues | WhereNextLoop

type_synonym 'a result = "(bool \<times> 'a option \<times> 'a Iterator) option"

definition ArrayListForwardIterator_call ::
  "methodName \<Rightarrow> 'a option list \<Rightarrow> int option \<Rightarrow> 'a result" where
  "ArrayListForwardIterator_call m l i =
     (case m of
        HasCurrent \<Rightarrow>
          Some (isDefined i \<and> \<not> ArrayListForwardIterator_atEnd l i, None,
                ArrayListForwardIterator l i)
      | Next \<Rightarrow>
          (let (b, i') = ArrayListForwardIterator_next l i
           in Some (b, None, ArrayListForwardIterator l i'))
      | GetCurrent \<Rightarrow> Some (False, ArrayList_get l i, ArrayListForwardIterator l i)
      | _ \<Rightarrow> None)"

definition ArrayListReverseIterator_call ::
  "methodName \<Rightarrow> 'a option list \<Rightarrow> int option \<Rightarrow> 'a result" where
  "ArrayListReverseIterator_call m l i =
     (case m of
        HasCurrent \<Rightarrow>
          Some (isDefined i \<and> \<not> ArrayListReverseIterator_atEnd l i, None,
                ArrayListReverseIterator l i)
      | Next \<Rightarrow>
          (let (b, i') = ArrayListReverseIterator_next l i
           in Some (b, None, ArrayListReverseIterator l i'))
      | GetCurrent \<Rightarrow> Some (False, ArrayList_get l i, ArrayListReverseIterator l i)
      | _ \<Rightarrow> None)"

definition StringIterator_call :: "methodName \<Rightarrow> 'a StringIterator \<Rightarrow> 'a result" where
  "StringIterator_call m si =
     (case m of
        HasCurrent \<Rightarrow> Some (StringIterator_hasCurrent si, None, StringIteratorOf si)
      | Next \<Rightarrow>
          (let (b, si') = StringIterator_next si in Some (b, None, StringIteratorOf si'))
      | GetCurrent \<Rightarrow> Some (False, StringIterator_getCurrent si, StringIteratorOf si)
      | _ \<Rightarrow> None)"

definition IteratorDecorator_call ::
  "(methodName \<Rightarrow> 'a Iterator \<Rightarrow> 'a result) \<Rightarrow> methodName \<Rightarrow> 'a Iterator \<Rightarrow> 'a result" where
  "IteratorDecorator_call self m it =
     (case innerIterator it of None \<Rightarrow> None
      | Some inner \<Rightarrow> do {
          (b, v, inner') \<leftarrow> self m inner;
          Some (b, v, setInnerIterator it inner') })"

definition WhereIterator_call ::
  "(methodName \<Rightarrow> 'a Iterator \<Rightarrow> 'a result) \<Rightarrow> methodName \<Rightarrow> 'a Iterator
     \<Rightarrow> ('a option \<Rightarrow> bool) option \<Rightarrow> 'a result" where
  "WhereIterator_call self m it condition =
     (case m of
        HasCurrent \<Rightarrow> IteratorDecorator_call self HasCurrent it
      | GetCurrent \<Rightarrow> IteratorDecorator_call self GetCurrent it
      | Next \<Rightarrow>
          (case condition of
             None \<Rightarrow> do {
               (b, u, s1) \<leftarrow> IteratorDecorator_call self Next it;
               self HasCurrent s1 }
           | Some p \<Rightarrow> do {
               (b, u, s1) \<leftarrow> self WhereNextLoop it;
               self HasCurrent s1 })
      | WhereNextLoop \<Rightarrow>
          (case condition of
             None \<Rightarrow> None
           | Some p \<Rightarrow> do {
               (b, u, s) \<leftarrow> IteratorDecorator_call self Next it;
               if b
               then do {
                 (b', v, s') \<leftarrow> self GetCurrent s;
                 if \<not> p v then self WhereNextLoop s' else Some (False, None, s') }
               else Some (False, None, s) })
      | _ \<Rightarrow> None)"

definition SkipIterator_call ::
  "(methodName \<Rightarrow> 'a Iterator \<Rightarrow> 'a result) \<Rightarrow> methodName \<Rightarrow> 'a Iterator
     \<Rightarrow> number option \<Rightarrow> number \<Rightarrow> 'a result" where
  "SkipIterator_call self m it toSkip skipped =
     (case m of
        SkipValues \<Rightarrow>
          (if number_less skipped (toNumber toSkip)
           then do {
             (b, u, s) \<leftarrow> IteratorDecorator_call self Next it;
             self SkipValues (if \<not> b then setSkipped s (toNumber toSkip)
                              else setSkipped s (number_increment skipped)) }
           else Some (False, None, it))
      | HasCurrent \<Rightarrow> do {
          (b, u, s1) \<leftarrow> IteratorDecorator_call self HasCurrent it;
          (b', u', s2) \<leftarrow> (if b then self SkipValues s1 else Some (False, None, s1));
          IteratorDecorator_call self HasCurrent s2 }
      | Next \<Rightarrow> do {
          (b, u, s1) \<leftarrow> self SkipValues it;
          IteratorDecorator_call self Next s1 }
      | GetCurrent \<Rightarrow> do {
          (b, u, s1) \<leftarrow> IteratorDecorator_call self HasCurrent it;
          (b', u', s2) \<leftarrow> (if b then self SkipValues s1 else Some (False, None, s1));
          IteratorDecorator_call self GetCurrent s2 }
      | _ \<Rightarrow> None)"

definition TakeIterator_call ::
  "(methodName \<Rightarrow> 'a Iterator \<Rightarrow> 'a result) \<Rightarrow> methodName \<Rightarrow> 'a Iterator
     \<Rightarrow> number \<Rightarrow> 'a result" where
  "TakeIterator_call self m it taken =
     (case m of
        HasCurrent \<Rightarrow> do {
          (b, u, s1) \<leftarrow> IteratorDecorator_call self HasCurrent it;
          Some (b \<and> canTakeValue s1, None, s1) }
      | Next \<Rightarrow> do {
          (b, u, s1) \<leftarrow> (if canTakeValue it
                         then IteratorDecorator_call self Next
                                (setTaken it (number_increment taken))
                         else Some (False, None, it));
          self HasCurrent s1 }
      | GetCurrent \<Rightarrow> do {
          (b, u, s1) \<leftarrow> self HasCurrent it;
          if b then IteratorDecorator_call self GetCurrent s1 else Some (False, None, s1) }
      | _ \<Rightarrow> None)"

definition MapIterator_call ::
  "(methodName \<Rightarrow> 'a Iterator \<Rightarrow> 'a result) \<Rightarrow> methodName \<Rightarrow> 'a Iterator
     \<Rightarrow> ('a option \<Rightarrow> 'a option) option \<Rightarrow> bool \<Rightarrow> 'a result" where
  "MapIterator_call self m inner mapFunction started =
     (case m of
        HasCurrent \<Rightarrow>
          (case mapFunction of
             None \<Rightarrow> Some (False, None, MapIterator inner mapFunction started)
           | Some f \<Rightarrow> do {
               (b, u, inner') \<leftarrow> self HasCurrent inner;
               Some (b, None, MapIterator inner' mapFunction started) })
      | Next \<Rightarrow>
          (case mapFunction of
             None \<Rightarrow> Some (False, None, MapIterator inner mapFunction True)
           | Some f \<Rightarrow> do {
               (b, u, inner') \<leftarrow> self Next inner;
               Some (b, None, MapIterator inner' mapFunction True) })
      | GetCurrent \<Rightarrow>
          (case mapFunction of
             None \<Rightarrow> Some (False, None, MapIterator inner mapFunction started)
           | Some f \<Rightarrow> do {
               (b, u, inner1) \<leftarrow> self HasCurrent inner;
               if b
               then do {
                 (b', v, inner2) \<leftarrow> self GetCurrent inner1;
                 Some (False, f v, MapIterator inner2 mapFunction started) }
               else Some (False, None, MapIterator inner1 mapFunction started) })
      | _ \<Rightarrow> None)"

text \<open>
  A method of the second iterator of a concatenation is called only when the first has
  no current value, or does not advance; when the second iterator is \<open>undefined\<close>, that
  call raises a TypeError.
\<close>

definition callSecond ::
  "(methodName \<Rightarrow> 'a Iterator \<Rightarrow> 'a result) \<Rightarrow> methodName \<Rightarrow> 'a Iterator option
     \<Rightarrow> (bool \<times> 'a option \<times> 'a Iterator option) option" where
  "callSecond self m second =
     (case second of
        None \<Rightarrow> None
      | Some s \<Rightarrow> do { (b, v, s') \<leftarrow> self m s; Some (b, v, Some s') })"

definition ConcatenateIterator_call ::
  "(methodName \<Rightarrow> 'a Iterator \<Rightarrow> 'a result) \<Rightarrow> methodName \<Rightarrow> 'a Iterator
     \<Rightarrow> 'a Iterator option \<Rightarrow> 'a result" where
  "ConcatenateIterator_call self m first second =
     (case m of
        HasCurrent \<Rightarrow> do {
          (b1, u, first') \<leftarrow> self HasCurrent first;
          if b1 then Some (True, None, ConcatenateIterator first' second)
          else do {
            (b2, u', second') \<leftarrow> callSecond self HasCurrent second;
            Some (b2, None, ConcatenateIterator first' second') } }
      | Next \<Rightarrow> do {
          (b1, u, first') \<leftarrow> self Next first;
          if b1 then Some (True, None, ConcatenateIterator first' second)
          else do {
            (b2, u', second') \<leftarrow> callSecond self Next second;
            Some (b2, None, ConcatenateIterator first' second') } }
      | GetCurrent \<Rightarrow> do {
          (b1, u, first') \<leftarrow> self HasCurrent first;
          if b1
          then do {
            (b', v, first'') \<leftarrow> self GetCurrent first';
            Some (False, v, ConcatenateIterator first'' second) }
          else do {
            (b', v, second') \<leftarrow> callSecond self GetCurrent second;
            Some (False, v, ConcatenateIterator first' second') } }
      | _ \<Rightarrow> None)"

text \<open>
  Each class is monotone in \<open>self\<close>, which is what the definition of \<open>call\<close> needs.
\<close>

lemma IteratorDecorator_call_mono [partial_function_mono]:
  assumes "\<And>m it. mono_option (\<lambda>f. F f m it)"
  shows "mono_option (\<lambda>f. IteratorDecorator_call (F f) m it)"
  unfolding IteratorDecorator_call_def
  by (cases "innerIterator it") (auto intro!: partial_function_mono assms)

lemma WhereIterator_call_mono [partial_function_mono]:
  assumes "\<And>m it. mono_option (\<lambda>f. F f m it)"
  shows "mono_option (\<lambda>f. WhereIterator_call (F f) m it c)"
  unfolding WhereIterator_call_def case_prod_unfold
  by (cases m; cases c) (auto intro!: partial_function_mono assms)

lemma SkipIterator_call_mono [partial_function_mono]:
  assumes "\<And>m it. mono_option (\<lambda>f. F f m it)"
  shows "mono_option (\<lambda>f. SkipIterator_call (F f) m it toSkip skipped)"
  unfolding SkipIterator_call_def case_prod_unfold
  by (cases m) (auto intro!: partial_function_mono assms)

lemma TakeIterator_call_mono [partial_function_mono]:
  assumes "\<And>m it. mono_option (\<lambda>f. F f m it)"
  shows "mono_option (\<lambda>f. TakeIterator_call (F f) m it taken)"
  unfolding TakeIterator_call_def case_prod_unfold
  by (cases m) (auto intro!: partial_function_mono assms)

lemma MapIterator_call_mono [partial_function_mono]:
  assumes "\<And>m it. mono_option (\<lambda>f. F f m it)"
  shows "mono_option (\<lambda>f. MapIterator_call (F f) m inner mf started)"
  unfolding MapIterator_call_def case_prod_unfold
  by (cases m; cases mf) (auto intro!: partial_function_mono assms)

lemma callSecond_mono [partial_function_mono]:
  assumes "\<And>m it. mono_option (\<lambda>f. F f m it)"
  shows "mono_option (\<lambda>f. callSecond (F f) m second)"
  unfolding callSecond_def case_prod_unfold
  by (cases second) (auto intro!: partial_function_mono assms)

lemma ConcatenateIterator_call_mono [partial_function_mono]:
  assumes "\<And>m it. mono_option (\<lambda>f. F f m it)"
  shows "mono_option (\<lambda>f. ConcatenateIterator_call (F f) m first second)"
  unfolding ConcatenateIterator_call_def case_prod_unfold
  by (cases m) (auto intro!: partial_function_mono callSecond_mono assms)

partial_function (option) call :: "methodName \<Rightarrow> 'a Iterator \<Rightarrow> 'a result" where
  "call m it =
     (case it of
        ArrayListForwardIterator l i \<Rightarrow> ArrayListForwardIterator_call m l i
      | ArrayListReverseIterator l i \<Rightarrow> ArrayListReverseIterator_call m l i
      | StringIteratorOf si \<Rightarrow> StringIterator_call m si
      | WhereIterator inner condition \<Rightarrow> WhereIterator_call call m it condition
      | SkipIterator inner toSkip skipped \<Rightarrow> SkipIterator_call call m it toSkip skipped
      | TakeIterator inner toTake taken \<Rightarrow> TakeIterator_call call m it taken
      | MapIterator inner mapFunction started \<Rightarrow> MapIterator_call call m inner mapFunction started
      | ConcatenateIterator first second \<Rightarrow> ConcatenateIterator_call call m first second)"

declare call.simps [code]

lemma call_ArrayListForwardIterator:
  "call m (ArrayListForwardIterator l i) = ArrayListForwardIterator_call m l i"
  by (subst call.simps) simp

lemma call_ArrayListReverseIterator:
  "call m (ArrayListReverseIterator l i) = ArrayListReverseIterator_call m l i"
  by (subst call.simps) simp

lemma call_StringIteratorOf: "call m (StringIteratorOf si) = StringIterator_call m si"
  by (subst call.simps) simp

lemma call_WhereIterator:
  "call m (WhereIterator inner c) = WhereIterator_call call m (WhereIterator inner c) c"
  by (subst call.simps) simp

lemma call_SkipIterator:
  "call m (SkipIterator inner toSkip skipped)
     = SkipIterator_call call m (SkipIterator inner toSkip skipped) toSkip skipped"
  by (subst call.simps) simp

lemma call_TakeIterator:
  "call m (TakeIterator inner toTake taken)
     = TakeIterator_call call m (TakeIterator inner toTake taken) taken"
  by (subst call.simps) simp

lemma call_MapIterator:
  "call m (MapIterator inner f started) = MapIterator_call call m inner f started"
  by (subst call.simps) simp

lemma call_ConcatenateIterator:
  "call m (ConcatenateIterator first second) = ConcatenateIterator_call call m first second"
  by (subst call.simps) simp

lemmas call_simps = call_ArrayListForwardIterator call_ArrayListReverseIterator
  call_StringIteratorOf call_WhereIterator call_SkipIterator call_TakeIterator
  call_MapIterator call_ConcatenateIterator

text \<open>
  \<open>hasStarted\<close> changes nothing and always returns; the three other methods of the
  interface are projections of \<open>call\<close>.
\<close>

fun hasStarted :: "'a Iterator \<Rightarrow> bool" where
  "hasStarted (ArrayListForwardIterator l i) = isDefined i"
| "hasStarted (ArrayListReverseIterator l i) = isDefined i"
| "hasStarted (StringIteratorOf si) = StringIterator_hasStarted si"
| "hasStarted (WhereIterator inner c) = hasStarted inner"
| "hasStarted (SkipIterator inner toSkip skipped) = hasStarted inner"
| "hasStarted (TakeIterator inner toTake taken) = hasStarted inner"
| "hasStarted (MapIterator inner f started) = started"
| "hasStarted (ConcatenateIterator first second) = hasStarted first"

definition Iterator_hasCurrent :: "'a Iterator \<Rightarrow> (bool \<times> 'a Iterator) option" where
  "Iterator_hasCurrent it = do { (b, v, it') \<leftarrow> call HasCurrent it; Some (b, it') }"

definition Iterator_next :: "'a Iterator \<Rightarrow> (bool \<times> 'a Iterator) option" where
  "Iterator_next it = do { (b, v, it') \<leftarrow> call Next it; Some (b, it') }"

definition Iterator_getCurrent :: "'a Iterator \<Rightarrow> ('a option \<times> 'a Iterator) option" where
  "Iterator_getCurrent it = do { (b, v, it') \<leftarrow> call GetCurrent it; Some (v, it') }"

text \<open>
  The constructors. The one of \<open>WhereIterator\<close> moves an inner iterator that has a current
  value to the first value that satisfies the condition; the one of \<open>TakeIterator\<close> counts
  a current value of the inner iterator as taken; the one of \<open>MapIterator\<close> copies
  \<open>hasStarted()\<close> of the inner iterator.
\<close>

partial_function (option) WhereIterator_new_loop ::
  "('a option \<Rightarrow> bool) \<Rightarrow> 'a Iterator \<Rightarrow> 'a Iterator option" where
  "WhereIterator_new_loop p w = do {
     (b, w1) \<leftarrow> Iterator_hasCurrent w;
     if b
     then do {
       (v, w2) \<leftarrow> Iterator_getCurrent w1;
       if \<not> p v
       then do {
         (b', u, w3) \<leftarrow> IteratorDecorator_call call Next w2;
         WhereIterator_new_loop p w3 }
       else Some w2 }
     else Some w1 }"

declare WhereIterator_new_loop.simps [code]

definition WhereIterator_new ::
  "'a Iterator \<Rightarrow> ('a option \<Rightarrow> bool) option \<Rightarrow> 'a Iterator option" where
  "WhereIterator_new inner condition =
     (case condition of
        None \<Rightarrow> Some (WhereIterator inner condition)
      | Some p \<Rightarrow> WhereIterator_new_loop p (WhereIterator inner condition))"

definition SkipIterator_new :: "'a Iterator \<Rightarrow> number option \<Rightarrow> 'a Iterator option" where
  "SkipIterator_new inner toSkip = Some (SkipIterator inner toSkip (ofInt 0))"

definition TakeIterator_new :: "'a Iterator \<Rightarrow> number option \<Rightarrow> 'a Iterator option" where
  "TakeIterator_new inner toTake = do {
     (b, inner') \<leftarrow> Iterator_hasCurrent inner;
     Some (TakeIterator inner' toTake (if b then ofInt 1 else ofInt 0)) }"

definition MapIterator_new ::
  "'a Iterator \<Rightarrow> ('a option \<Rightarrow> 'a option) option \<Rightarrow> 'a Iterator option" where
  "MapIterator_new inner mapFunction =
     Some (MapIterator inner mapFunction (hasStarted inner))"

definition Iterator_where ::
  "'a Iterator \<Rightarrow> ('a option \<Rightarrow> bool) option \<Rightarrow> 'a Iterator option" where
  "Iterator_where it condition = WhereIterator_new it condition"

definition Iterator_skip :: "'a Iterator \<Rightarrow> number option \<Rightarrow> 'a Iterator option" where
  "Iterator_skip it toSkip = SkipIterator_new it toSkip"

definition Iterator_take :: "'a Iterator \<Rightarrow> number option \<Rightarrow> 'a Iterator option" where
  "Iterator_take it toTake = TakeIterator_new it toTake"

definition Iterator_map ::
  "'a Iterator \<Rightarrow> ('a option \<Rightarrow> 'a option) option \<Rightarrow> 'a Iterator option" where
  "Iterator_map it mapFunction = MapIterator_new it mapFunction"

text \<open>
  \<open>IteratorBase.concatenate\<close> returns \<open>this\<close> for an absent argument. \<open>MapIterator.concatenate\<close>
  makes no such test: it builds a \<open>ConcatenateIterator\<close> of \<open>this\<close> and its argument, absent
  or not.
\<close>

fun Iterator_concatenate :: "'a Iterator \<Rightarrow> 'a Iterator option \<Rightarrow> 'a Iterator option" where
  "Iterator_concatenate (MapIterator inner f started) toConcatenate =
     Some (ConcatenateIterator (MapIterator inner f started) toConcatenate)"
| "Iterator_concatenate it None = Some it"
| "Iterator_concatenate it (Some toConcatenate) =
     Some (ConcatenateIterator it (Some toConcatenate))"

text \<open>
  \<open>IteratorBase.toArray\<close> is \<open>foreach\<close> with a function that pushes the value and never
  breaks: the current value if there is one, then every value \<open>next()\<close> reaches.
  \<open>MapIterator\<close> has its own \<open>foreach\<close>, \<open>toArray\<close> and \<open>getCount\<close>, which consume the inner
  iterator.
\<close>

partial_function (option) IteratorBase_foreach_loop ::
  "'a Iterator \<Rightarrow> 'a option list \<Rightarrow> ('a option list \<times> 'a Iterator) option" where
  "IteratorBase_foreach_loop it result = do {
     (b, it1) \<leftarrow> Iterator_next it;
     if b
     then do {
       (v, it2) \<leftarrow> Iterator_getCurrent it1;
       IteratorBase_foreach_loop it2 (result @ [v]) }
     else Some (result, it1) }"

declare IteratorBase_foreach_loop.simps [code]

definition IteratorBase_toArray :: "'a Iterator \<Rightarrow> ('a option list \<times> 'a Iterator) option" where
  "IteratorBase_toArray it = do {
     (b, it1) \<leftarrow> Iterator_hasCurrent it;
     if b
     then do {
       (v, it2) \<leftarrow> Iterator_getCurrent it1;
       IteratorBase_foreach_loop it2 [v] }
     else IteratorBase_foreach_loop it1 [] }"

fun Iterator_toArray :: "'a Iterator \<Rightarrow> ('a option list \<times> 'a Iterator) option" where
  "Iterator_toArray (MapIterator inner mapFunction started) =
     (case mapFunction of
        None \<Rightarrow> Some ([], MapIterator inner mapFunction started)
      | Some f \<Rightarrow> do {
          (values, inner') \<leftarrow> Iterator_toArray inner;
          Some (map f values, MapIterator inner' mapFunction started) })"
| "Iterator_toArray it = IteratorBase_toArray it"

partial_function (option) IteratorBase_getCount_loop ::
  "'a Iterator \<Rightarrow> int \<Rightarrow> (int \<times> 'a Iterator) option" where
  "IteratorBase_getCount_loop it result = do {
     (b, it1) \<leftarrow> Iterator_next it;
     if b then IteratorBase_getCount_loop it1 (result + 1) else Some (result, it1) }"

declare IteratorBase_getCount_loop.simps [code]

definition IteratorBase_getCount :: "'a Iterator \<Rightarrow> (int \<times> 'a Iterator) option" where
  "IteratorBase_getCount it = do {
     (b, it1) \<leftarrow> Iterator_hasCurrent it;
     IteratorBase_getCount_loop it1 (if b then 1 else 0) }"

fun Iterator_getCount :: "'a Iterator \<Rightarrow> (int \<times> 'a Iterator) option" where
  "Iterator_getCount (MapIterator inner mapFunction started) =
     (case mapFunction of
        None \<Rightarrow> Some (0, MapIterator inner mapFunction True)
      | Some f \<Rightarrow> do {
          (n, inner') \<leftarrow> Iterator_getCount inner;
          Some (n, MapIterator inner' mapFunction True) })"
| "Iterator_getCount it = IteratorBase_getCount it"

section \<open>The iterables\<close>

text \<open>
  \<open>ConcatenateIterable\<close> copies its second argument into an \<open>ArrayList\<close> when it is
  constructed, so its second field is a list. \<open>MapIterable\<close> does not extend
  \<open>IterableBase\<close>; its methods repeat those of \<open>IterableBase\<close> word for word, but for
  \<open>getCount\<close>, which is the inner iterable's.
\<close>

datatype 'a Iterable =
    ArrayList "'a option list"
  | StringIterable "'a list"
  | WhereIterable "'a Iterable" "'a option \<Rightarrow> bool"
  | SkipIterable "'a Iterable" number
  | TakeIterable "'a Iterable" number
  | MapIterable "'a Iterable" "'a option \<Rightarrow> 'a option"
  | ConcatenateIterable "'a Iterable" "'a option list"

fun iterate :: "'a Iterable \<Rightarrow> 'a Iterator option" where
  "iterate (ArrayList l) = Some (ArrayListForwardIterator l None)"
| "iterate (StringIterable txt) =
     Some (StringIteratorOf (StringIterator_new txt (Some 0) (Some (getLength txt))))"
| "iterate (WhereIterable innerIterable condition) = do {
     it \<leftarrow> iterate innerIterable;
     Iterator_where it (Some condition) }"
| "iterate (SkipIterable innerIterable toSkip) = do {
     it \<leftarrow> iterate innerIterable;
     Iterator_skip it (Some toSkip) }"
| "iterate (TakeIterable innerIterable toTake) = do {
     it \<leftarrow> iterate innerIterable;
     Iterator_take it (Some toTake) }"
| "iterate (MapIterable innerIterable mapFunction) = do {
     it \<leftarrow> iterate innerIterable;
     Iterator_map it (Some mapFunction) }"
| "iterate (ConcatenateIterable first second) = do {
     it \<leftarrow> iterate first;
     Iterator_concatenate it (Some (ArrayListForwardIterator second None)) }"

definition IterableBase_getCount :: "'a Iterable \<Rightarrow> number option" where
  "IterableBase_getCount x = do {
     it \<leftarrow> iterate x;
     (n, it') \<leftarrow> Iterator_getCount it;
     Some (ofInt n) }"

fun getCount :: "'a Iterable \<Rightarrow> number option" where
  "getCount (ArrayList l) = Some (ofInt (ArrayList_getCount l))"
| "getCount (SkipIterable innerIterable toSkip) = do {
     result \<leftarrow> getCount innerIterable;
     Some (if number_lessEq result toSkip then ofInt 0 else number_minus result toSkip) }"
| "getCount (TakeIterable innerIterable toTake) = do {
     result \<leftarrow> getCount innerIterable;
     Some (if number_less toTake result then toTake else result) }"
| "getCount (MapIterable innerIterable mapFunction) = getCount innerIterable"
| "getCount x = IterableBase_getCount x"

fun iterateReverse :: "'a Iterable \<Rightarrow> 'a Iterator option" where
  "iterateReverse (ArrayList l) = Some (ArrayListReverseIterator l None)"
| "iterateReverse (StringIterable txt) =
     Some (StringIteratorOf (StringIterator_new txt (Some (getLength txt - 1)) (Some (- 1))))"
| "iterateReverse (WhereIterable innerIterable condition) = do {
     it \<leftarrow> iterateReverse innerIterable;
     Iterator_where it (Some condition) }"
| "iterateReverse (SkipIterable innerIterable toSkip) = do {
     it \<leftarrow> iterateReverse innerIterable;
     n \<leftarrow> getCount (SkipIterable innerIterable toSkip);
     Iterator_take it (Some n) }"
| "iterateReverse (TakeIterable innerIterable toTake) = do {
     it \<leftarrow> iterateReverse innerIterable;
     n \<leftarrow> getCount innerIterable;
     Iterator_skip it (Some (number_minus n toTake)) }"
| "iterateReverse (MapIterable innerIterable mapFunction) = do {
     it \<leftarrow> iterateReverse innerIterable;
     Iterator_map it (Some mapFunction) }"
| "iterateReverse (ConcatenateIterable first second) = do {
     it \<leftarrow> iterateReverse first;
     Iterator_concatenate (ArrayListReverseIterator second None) (Some it) }"

definition Iterable_toArray :: "'a Iterable \<Rightarrow> 'a option list option" where
  "Iterable_toArray x = do {
     it \<leftarrow> iterate x;
     (values, it') \<leftarrow> Iterator_toArray it;
     Some values }"

text \<open>
  \<open>skip\<close> and \<open>take\<close> construct their iterable when \<open>toSkip && 0 < toSkip\<close>: for every
  number greater than 0, an integer or not.
\<close>

definition Iterable_where :: "'a Iterable \<Rightarrow> ('a option \<Rightarrow> bool) option \<Rightarrow> 'a Iterable" where
  "Iterable_where x condition =
     (case condition of Some p \<Rightarrow> WhereIterable x p | None \<Rightarrow> x)"

definition Iterable_skip :: "'a Iterable \<Rightarrow> number option \<Rightarrow> 'a Iterable" where
  "Iterable_skip x toSkip =
     (if truthy toSkip \<and> number_less (ofInt 0) (toNumber toSkip)
      then SkipIterable x (toNumber toSkip) else x)"

definition Iterable_take :: "'a Iterable \<Rightarrow> number option \<Rightarrow> 'a Iterable" where
  "Iterable_take x toTake =
     (if truthy toTake \<and> number_less (ofInt 0) (toNumber toTake)
      then TakeIterable x (toNumber toTake) else ArrayList [])"

definition Iterable_skipLast :: "'a Iterable \<Rightarrow> number option \<Rightarrow> 'a Iterable option" where
  "Iterable_skipLast x toSkip =
     (if truthy toSkip \<and> number_less (ofInt 0) (toNumber toSkip)
      then do {
        count \<leftarrow> getCount x;
        Some (Iterable_take x (Some (number_minus count (toNumber toSkip)))) }
      else Some x)"

definition Iterable_takeLast :: "'a Iterable \<Rightarrow> number option \<Rightarrow> 'a Iterable option" where
  "Iterable_takeLast x toTake =
     (if \<not> truthy toTake then Some (ArrayList [])
      else if number_less (toNumber toTake) (ofInt 0) then Some (ArrayList [])
      else do {
        count \<leftarrow> getCount x;
        if number_lessEq count (toNumber toTake) then Some x
        else Some (Iterable_skip x (Some (number_minus count (toNumber toTake)))) })"

definition Iterable_map :: "'a Iterable \<Rightarrow> ('a option \<Rightarrow> 'a option) option \<Rightarrow> 'a Iterable" where
  "Iterable_map x mapFunction =
     (case mapFunction of Some f \<Rightarrow> MapIterable x f | None \<Rightarrow> ArrayList [])"

definition ConcatenateIterable_new :: "'a Iterable \<Rightarrow> 'a Iterable \<Rightarrow> 'a Iterable option" where
  "ConcatenateIterable_new first second = do {
     values \<leftarrow> Iterable_toArray second;
     Some (ConcatenateIterable first values) }"

definition Iterable_concatenate :: "'a Iterable \<Rightarrow> 'a Iterable option \<Rightarrow> 'a Iterable option" where
  "Iterable_concatenate x toConcatenate =
     (case toConcatenate of Some y \<Rightarrow> ConcatenateIterable_new x y | None \<Rightarrow> Some x)"

text \<open>
  The loop of \<open>endsWith\<close>; \<open>result\<close> is true when the loop is entered, and false once two
  current values differ.
\<close>

partial_function (option) endsWith_loop :: "'a Iterator \<Rightarrow> 'a Iterator \<Rightarrow> bool option" where
  "endsWith_loop thisLastValuesIterator valuesIterator = do {
     (b1, a1) \<leftarrow> Iterator_next thisLastValuesIterator;
     (b2, c1) \<leftarrow> Iterator_next valuesIterator;
     if b1 = b2
     then do {
       (h, a2) \<leftarrow> Iterator_hasCurrent a1;
       if h
       then do {
         (v1, a3) \<leftarrow> Iterator_getCurrent a2;
         (v2, c2) \<leftarrow> Iterator_getCurrent c1;
         if v1 \<noteq> v2 then Some False else endsWith_loop a3 c2 }
       else Some True }
     else Some True }"

declare endsWith_loop.simps [code]

definition Iterable_endsWith :: "'a Iterable \<Rightarrow> 'a Iterable option \<Rightarrow> bool option" where
  "Iterable_endsWith x values =
     (case values of
        None \<Rightarrow> Some False
      | Some y \<Rightarrow> do {
          valuesCount \<leftarrow> getCount y;
          if valuesCount = ofInt 0 then Some False
          else do {
            count \<leftarrow> getCount x;
            if number_less count valuesCount then Some False
            else do {
              lastValues \<leftarrow> Iterable_takeLast x (Some valuesCount);
              thisLastValuesIterator \<leftarrow> iterate lastValues;
              valuesIterator \<leftarrow> iterate y;
              endsWith_loop thisLastValuesIterator valuesIterator } } })"

section \<open>Lexer scenarios\<close>

lemmas lexer_eval = Lexer_toArray_def Lexer_next_def Lexer_new_def StringIterator_new_def
  Lexer_hasStarted_def Lexer_hasCurrent_def Lexer_getCurrent_def
  Lexer_getCurrentCharacterStartIndex_def Lexer_hasCurrentCharacter_def
  Lexer_getCurrentCharacter_def Lexer_nextCharacter_def StringIterator_hasStarted_def
  StringIterator_hasCurrent_def StringIterator_hasMore_def StringIterator_step_def
  StringIterator_currentIndex_def StringIterator_getCurrent_def StringIterator_next_def
  index_def getLength_def isDefined_def js_def Lexer_switch_def Lexer_single_def
  readLetters_def readDigits_def readWhile_def currentCharacter_def toStringValue_def
  isDigit_def Let_def readWhile_loop.simps Lexer_foreach_loop.simps toDouble_def

lemmas lex_eval = Lex_new_def Lex_getLength_def Lex_toString_def Lex_getType_def
  Lex_isWhitespace_def Lex_isNewLine_def Letters_def Digits_def Space_def
  RightCurlyBracket_def CarriageReturn_def NewLine_def CarriageReturnNewLine_def
  Unrecognized_def

lemma isLetter_samples:
  "isLetter (Some [97])" "isLetter (Some [98])" "\<not> isLetter (Some [49])"
  "\<not> isLetter (Some [50])" "\<not> isLetter (Some [32])" "\<not> isLetter (Some [125])"
  by (simp_all add: isLetter_def letterRanges_def)

text \<open>
  C3 (as amended). Lexing \<open>"ab12 }"\<close> from offset 0 yields Letters "ab" (start 0, length 2),
  Digits "12" (start 2, length 2), Space (start 4, length 1) and RightCurlyBracket (start 5,
  length 1); the cursor has then consumed 6 characters. Each of the first four calls of
  \<open>next()\<close> returns true and leaves the corresponding lex current; the fifth call returns
  false, and \<open>hasCurrent()\<close> is false after it.
\<close>

theorem lexer_ab12_scenario:
  "fst (Lexer_toArray (Lexer_new (js ''ab12 }'') (Some 0))) =
     [Some (Letters (Some (js ''ab'')) 0), Some (Digits (Some (js ''12'')) 2),
      Some (Space 4), Some (RightCurlyBracket 5)]
   \<and> Lex_getLength (Letters (Some (js ''ab'')) 0) = Some 2
   \<and> Lex_getLength (Digits (Some (js ''12'')) 2) = Some 2
   \<and> Lex_getLength (Space 4) = Some 1
   \<and> Lex_getLength (RightCurlyBracket 5) = Some 1
   \<and> it_currentIndex (iterator (snd (Lexer_toArray (Lexer_new (js ''ab12 }'') (Some 0))))) = 6
   \<and> fst (Lexer_next (Lexer_new (js ''ab12 }'') (Some 0)))
   \<and> Lexer_getCurrent (Lexer_advance 1 (Lexer_new (js ''ab12 }'') (Some 0)))
       = Some (Letters (Some (js ''ab'')) 0)
   \<and> fst (Lexer_next (Lexer_advance 1 (Lexer_new (js ''ab12 }'') (Some 0))))
   \<and> Lexer_getCurrent (Lexer_advance 2 (Lexer_new (js ''ab12 }'') (Some 0)))
       = Some (Digits (Some (js ''12'')) 2)
   \<and> fst (Lexer_next (Lexer_advance 2 (Lexer_new (js ''ab12 }'') (Some 0))))
   \<and> Lexer_getCurrent (Lexer_advance 3 (Lexer_new (js ''ab12 }'') (Some 0)))
       = Some (Space 4)
   \<and> fst (Lexer_next (Lexer_advance 3 (Lexer_new (js ''ab12 }'') (Some 0))))
   \<and> Lexer_getCurrent (Lexer_advance 4 (Lexer_new (js ''ab12 }'') (Some 0)))
       = Some (RightCurlyBracket 5)
   \<and> fst (Lexer_next (Lexer_advance 4 (Lexer_new (js ''ab12 }'') (Some 0)))) = False
   \<and> Lexer_hasCurrent (Lexer_advance 5 (Lexer_new (js ''ab12 }'') (Some 0))) = False"
  by (simp add: lexer_eval lex_eval isLetter_samples)

text \<open>
  C3 as stated has the fourth call of \<open>next()\<close> return false. On the code the fourth call
  returns true (it yields the RightCurlyBracket lex), and \<open>hasCurrent()\<close> is true after it.
\<close>

theorem lexer_ab12_fourth_next:
  "fst (Lexer_next (Lexer_advance 3 (Lexer_new (js ''ab12 }'') (Some 0)))) = True
   \<and> Lexer_hasCurrent (Lexer_advance 4 (Lexer_new (js ''ab12 }'') (Some 0))) = True"
  by (simp add: lexer_eval lex_eval isLetter_samples)

text \<open>
  C4. The input carriage-return, line-feed yields exactly one lex, the combined lex of text
  \<open>"\r\n"\<close> and length 2, for which \<open>isNewLine()\<close> is true and \<open>isWhitespace()\<close> is false. In
  general, when the current character of a started lexer is a carriage-return, \<open>next()\<close>
  advances the cursor once to look at the following character: when that character exists and
  is a line-feed, the lex is the combined one and the cursor advances once more, past both
  characters; otherwise the lex is the lone carriage-return, of length 1 and classified as
  whitespace, and the cursor stays on the character after the carriage-return.
\<close>

theorem lexer_carriage_return:
  "fst (Lexer_toArray (Lexer_new [0x0D, 0x0A] None)) = [Some (CarriageReturnNewLine 0)]
   \<and> Lex_toString (CarriageReturnNewLine j) = Some [0x0D, 0x0A]
   \<and> Lex_getLength (CarriageReturnNewLine j) = Some 2
   \<and> Lex_isNewLine (CarriageReturnNewLine j)
   \<and> \<not> Lex_isWhitespace (CarriageReturnNewLine j)
   \<and> Lex_toString (CarriageReturn j) = Some [0x0D]
   \<and> Lex_getLength (CarriageReturn j) = Some 1
   \<and> Lex_isWhitespace (CarriageReturn j)
   \<and> \<not> Lex_isNewLine (CarriageReturn j)
   \<and> (Lexer_hasStarted l \<and> Lexer_getCurrentCharacter l = Some [0x0D] \<longrightarrow>
        (let i = toDouble (it_currentIndex (iterator l) + characterStartIndexOffset l);
             (b, it1) = StringIterator_next (iterator l)
         in if b \<and> currentCharacter it1 = Some [0x0A]
            then Lexer_next l =
                   (True, l\<lparr>iterator := snd (StringIterator_next it1),
                             currentLex := Some (CarriageReturnNewLine i)\<rparr>)
            else Lexer_next l =
                   (True, l\<lparr>iterator := it1, currentLex := Some (CarriageReturn i)\<rparr>)))"
proof -
  have general: "(let i = toDouble (it_currentIndex (iterator l) + characterStartIndexOffset l);
             (b, it1) = StringIterator_next (iterator l)
         in if b \<and> currentCharacter it1 = Some [0x0A]
            then Lexer_next l =
                   (True, l\<lparr>iterator := snd (StringIterator_next it1),
                             currentLex := Some (CarriageReturnNewLine i)\<rparr>)
            else Lexer_next l =
                   (True, l\<lparr>iterator := it1, currentLex := Some (CarriageReturn i)\<rparr>))"
    if hs: "Lexer_hasStarted l" and cr: "Lexer_getCurrentCharacter l = Some [0x0D]"
  proof -
    have hc: "StringIterator_hasCurrent (iterator l)"
      using cr by (auto simp: Lexer_getCurrentCharacter_def StringIterator_getCurrent_def
            split: if_splits option.splits)
    have ix: "Lexer_getCurrentCharacterStartIndex l
                = Some (toDouble (it_currentIndex (iterator l) + characterStartIndexOffset l))"
      using hc by (simp add: Lexer_getCurrentCharacterStartIndex_def StringIterator_currentIndex_def)
    have n: "Lexer_next l =
        (let l2 = Lexer_switch (Some [0x0D])
                    (toDouble (it_currentIndex (iterator l) + characterStartIndexOffset l)) l
         in (Lexer_hasCurrent l2, l2))"
      using hs hc ix cr by (simp add: Lexer_next_def Let_def Lexer_hasCurrentCharacter_def)
    show ?thesis
      unfolding n
      by (simp add: Lexer_switch_def js_def Lexer_nextCharacter_def Lexer_single_def
            Lexer_getCurrentCharacter_def currentCharacter_def Lexer_hasCurrent_def isDefined_def
            split: prod.splits)
  qed
  have scenario: "fst (Lexer_toArray (Lexer_new [0x0D, 0x0A] None)) = [Some (CarriageReturnNewLine 0)]"
    by (simp add: lexer_eval lex_eval)
  have classes: "Lex_toString (CarriageReturnNewLine j) = Some [0x0D, 0x0A]"
    "Lex_getLength (CarriageReturnNewLine j) = Some 2"
    "Lex_isNewLine (CarriageReturnNewLine j)"
    "\<not> Lex_isWhitespace (CarriageReturnNewLine j)"
    "Lex_toString (CarriageReturn j) = Some [0x0D]"
    "Lex_getLength (CarriageReturn j) = Some 1"
    "Lex_isWhitespace (CarriageReturn j)"
    "\<not> Lex_isNewLine (CarriageReturn j)"
    by (simp_all add: lex_eval)
  show ?thesis
    using general scenario classes by blast
qed

theorem lexer_carriage_return_scenarios:
  "Lexer_hasStarted (Lexer_advance 1 (Lexer_new [0x20, 0x0D, 0x0A, 0x0D] None))
   \<and> Lexer_getCurrentCharacter (Lexer_advance 1 (Lexer_new [0x20, 0x0D, 0x0A, 0x0D] None)) = Some [0x0D]
   \<and> Lexer_getCurrent (Lexer_advance 2 (Lexer_new [0x20, 0x0D, 0x0A, 0x0D] None))
       = Some (CarriageReturnNewLine 1)
   \<and> Lexer_getCurrentCharacter (Lexer_advance 2 (Lexer_new [0x20, 0x0D, 0x0A, 0x0D] None)) = Some [0x0D]
   \<and> Lexer_getCurrent (Lexer_advance 3 (Lexer_new [0x20, 0x0D, 0x0A, 0x0D] None))
       = Some (CarriageReturn 3)"
  using lexer_carriage_return[of 0 "Lexer_advance 1 (Lexer_new [0x20, 0x0D, 0x0A, 0x0D] None)"]
  by (simp add: lexer_eval lex_eval)

text \<open>
  C5 (the code at an input where it departs from the claim). Lexing line-feed,
  carriage-return, line-feed yields two lexes of the same type, \<open>LexType.NewLine\<close>, which
  is none of Letters, Digits and Unrecognized, with the different texts \<open>"\n"\<close> and
  \<open>"\r\n"\<close>: the factory \<open>CarriageReturnNewLine\<close> builds its lex with \<open>LexType.NewLine\<close>, and no
  lex has the type \<open>LexType.CarriageReturnNewLine\<close>.
\<close>

theorem lexer_newline_type_two_texts:
  "fst (Lexer_toArray (Lexer_new [0x0A, 0x0D, 0x0A] None))
     = [Some (NewLine 0), Some (CarriageReturnNewLine 1)]
   \<and> Lex_getType (NewLine 0) = LexType.NewLine
   \<and> Lex_getType (CarriageReturnNewLine 1) = LexType.NewLine
   \<and> Lex_toString (NewLine 0) = Some [0x0A]
   \<and> Lex_toString (CarriageReturnNewLine 1) = Some [0x0D, 0x0A]"
  by (simp add: lexer_eval lex_eval)

section \<open>The lexes of a text tile it\<close>

lemma toDouble_exact: "- (2 ^ 53) \<le> x \<Longrightarrow> x \<le> 2 ^ 53 \<Longrightarrow> toDouble x = x"
  by (simp add: toDouble_def abs_le_iff)

text \<open>
  \<open>cursorAt s i\<close> is the started cursor over the whole of \<open>s\<close> at index \<open>i\<close>, and
  \<open>lexerAt s k i cl\<close> the lexer over \<open>s\<close> with offset \<open>k\<close>, its cursor at \<open>i\<close> and \<open>cl\<close> its current
  lex: the states a lexer built by \<open>Lexer_new s k\<close> is in after its first \<open>next()\<close>.
\<close>

definition cursorAt :: "jsstring \<Rightarrow> nat \<Rightarrow> codeunit StringIterator" where
  "cursorAt s i = \<lparr>it_text = s, it_startIndex = 0, it_endIndex = int (length s),
     it_currentIndex = int i, it_started = True\<rparr>"

definition lexerAt :: "jsstring \<Rightarrow> int \<Rightarrow> nat \<Rightarrow> Lex option \<Rightarrow> Lexer" where
  "lexerAt s k i cl = \<lparr>iterator = cursorAt s i, characterStartIndexOffset = k, currentLex = cl\<rparr>"

lemma cursorAt_next:
  "i < length s \<Longrightarrow> StringIterator_next (cursorAt s i) = (Suc i < length s, cursorAt s (Suc i))"
  by (auto simp: cursorAt_def StringIterator_next_def StringIterator_hasMore_def
        StringIterator_step_def Let_def)

lemma cursorAt_next_end:
  "StringIterator_next (cursorAt s (length s)) = (False, cursorAt s (length s))"
  by (auto simp: cursorAt_def StringIterator_next_def StringIterator_hasMore_def
        StringIterator_step_def Let_def)

lemma cursorAt_hasCurrent: "i \<le> length s \<Longrightarrow> StringIterator_hasCurrent (cursorAt s i) = (i < length s)"
  by (auto simp: cursorAt_def StringIterator_hasCurrent_def StringIterator_hasStarted_def
        StringIterator_hasMore_def StringIterator_step_def)

lemma cursorAt_current:
  "i < length s \<Longrightarrow> currentCharacter (cursorAt s i) = Some [s ! i]"
  by (auto simp: cursorAt_def currentCharacter_def StringIterator_getCurrent_def
        StringIterator_hasCurrent_def StringIterator_hasStarted_def
        StringIterator_hasMore_def StringIterator_step_def index_def)

lemma cursorAt_current_end:
  "currentCharacter (cursorAt s (length s)) = None"
  by (auto simp: cursorAt_def currentCharacter_def StringIterator_getCurrent_def
        StringIterator_hasCurrent_def StringIterator_hasStarted_def
        StringIterator_hasMore_def StringIterator_step_def index_def)

lemma new_next:
  "StringIterator_next (StringIterator_new s None None) = (0 < length s, cursorAt s 0)"
  by (auto simp: cursorAt_def StringIterator_next_def StringIterator_hasMore_def
        StringIterator_step_def Let_def StringIterator_new_def getLength_def)

lemma readWhile_loop_cursorAt:
  "i < length s \<Longrightarrow>
   \<exists>m. i + 1 + m \<le> length s \<and>
       readWhile_loop c (Some acc) (cursorAt s i)
         = (Some (acc @ take m (drop (Suc i) s)), cursorAt s (i + 1 + m))"
proof (induction "length s - i" arbitrary: i acc)
  case 0
  then show ?case by simp
next
  case (Suc n)
  show ?case
  proof (cases "Suc i < length s \<and> c (Some [s ! Suc i])")
    case True
    then have lt: "Suc i < length s" and cc: "c (Some [s ! Suc i])" by auto
    have "n = length s - Suc i" using Suc.hyps(2) by simp
    from Suc.hyps(1)[OF this lt, of "acc @ [s ! Suc i]"]
    obtain m where m: "Suc i + 1 + m \<le> length s"
      "readWhile_loop c (Some ((acc @ [s ! Suc i]))) (cursorAt s (Suc i))
         = (Some ((acc @ [s ! Suc i]) @ take m (drop (Suc (Suc i)) s)), cursorAt s (Suc i + 1 + m))"
      by blast
    have tk: "take (Suc m) (drop (Suc i) s) = s ! Suc i # take m (drop (Suc (Suc i)) s)"
      using lt by (simp add: Cons_nth_drop_Suc[symmetric])
    show ?thesis
      apply (rule exI[of _ "Suc m"])
      apply (subst readWhile_loop.simps)
      using m lt cc Suc.prems
      by (simp add: cursorAt_next cursorAt_current toStringValue_def tk)
  next
    case False
    show ?thesis
      apply (rule exI[of _ 0])
      apply (subst readWhile_loop.simps)
      using False Suc.prems
      by (auto simp: cursorAt_next cursorAt_current cursorAt_current_end not_less
            dest: le_antisym)
  qed
qed

definition lexedTo :: "jsstring \<Rightarrow> int \<Rightarrow> nat \<Rightarrow> Lexer \<Rightarrow> bool" where
  "lexedTo s k i l' =
     (\<exists>j t. i < j \<and> j \<le> length s \<and> l' = lexerAt s k j (Some t) \<and>
            lex_text t = Some (take (j - i) (drop i s)) \<and> lex_startIndex t = k + int i)"

lemma lexerAt_getCurrentCharacter:
  "i < length s \<Longrightarrow> Lexer_getCurrentCharacter (lexerAt s k i cl) = Some [s ! i]"
  using cursorAt_current[of i s]
  by (simp add: lexerAt_def Lexer_getCurrentCharacter_def currentCharacter_def)

lemma take1_drop: "i < length s \<Longrightarrow> take (Suc 0) (drop i s) = [s ! i]"
  by (simp add: take_Suc_conv_app_nth Cons_nth_drop_Suc[symmetric])

lemma take2_drop: "Suc i < length s \<Longrightarrow> take 2 (drop i s) = [s ! i, s ! Suc i]"
  by (metis Cons_nth_drop_Suc Suc_lessD numeral_2_eq_2 take1_drop take_Suc_Cons)

lemma single_lexedTo:
  assumes "i < length s" "lex_text t = Some [s ! i]" "lex_startIndex t = k + int i"
  shows "lexedTo s k i (Lexer_single t (lexerAt s k i cl))"
  unfolding lexedTo_def
  apply (rule exI[of _ "Suc i"], rule exI[of _ t])
  using assms
  by (simp add: Lexer_single_def Lexer_nextCharacter_def lexerAt_def cursorAt_next take1_drop)

lemma cr_lexedTo:
  assumes "i < length s" "s ! i = 0x0D"
  shows "lexedTo s k i (let (b, l') = Lexer_nextCharacter (lexerAt s k i cl)
        in if \<not> b then l'\<lparr>currentLex := Some (CarriageReturn (k + int i))\<rparr>
           else if Lexer_getCurrentCharacter l' \<noteq> Some [0x0A]
           then l'\<lparr>currentLex := Some (CarriageReturn (k + int i))\<rparr>
           else Lexer_single (CarriageReturnNewLine (k + int i)) l')"
proof (cases "Suc i < length s \<and> s ! Suc i = 0x0A")
  case True
  then have "lexedTo s k i (lexerAt s k (Suc (Suc i)) (Some (CarriageReturnNewLine (k + int i))))"
    unfolding lexedTo_def using assms
    by (intro exI[of _ "Suc (Suc i)"] exI[of _ "CarriageReturnNewLine (k + int i)"])
       (simp add: CarriageReturnNewLine_def Lex_new_def take2_drop)
  then show ?thesis
    using True assms lexerAt_getCurrentCharacter[of "Suc i" s k cl]
    by (simp add: Lexer_nextCharacter_def lexerAt_def cursorAt_next Lexer_single_def)
next
  case False
  have "lexedTo s k i (lexerAt s k (Suc i) (Some (CarriageReturn (k + int i))))"
    unfolding lexedTo_def using assms
    by (intro exI[of _ "Suc i"] exI[of _ "CarriageReturn (k + int i)"])
       (simp add: CarriageReturn_def Lex_new_def take1_drop)
  then show ?thesis
    using False assms lexerAt_getCurrentCharacter[of "Suc i" s k cl]
    by (auto simp: Lexer_nextCharacter_def lexerAt_def cursorAt_next Lexer_single_def)
qed

lemma read_lexedTo:
  assumes "i < length s" "\<And>x. lex_text (f x (k + int i)) = x" "\<And>x. lex_startIndex (f x (k + int i)) = k + int i"
  shows "lexedTo s k i (let (t, it') = readWhile (iterator (lexerAt s k i cl)) c
        in (lexerAt s k i cl)\<lparr>iterator := it', currentLex := Some (f t (k + int i))\<rparr>)"
proof -
  obtain m where m: "i + 1 + m \<le> length s"
    "readWhile_loop c (Some [s ! i]) (cursorAt s i)
       = (Some ([s ! i] @ take m (drop (Suc i) s)), cursorAt s (i + 1 + m))"
    using readWhile_loop_cursorAt[OF assms(1), of c "[s ! i]"] by blast
  have tk: "take (Suc m) (drop i s) = s ! i # take m (drop (Suc i) s)"
    using assms(1) by (simp add: Cons_nth_drop_Suc[symmetric])
  show ?thesis
    unfolding lexedTo_def
    apply (rule exI[of _ "i + 1 + m"], rule exI[of _ "f (Some (s ! i # take m (drop (Suc i) s))) (k + int i)"])
    using m assms
    by (simp add: readWhile_def lexerAt_def cursorAt_current tk)
qed

lemmas factory_defs = LeftCurlyBracket_def RightCurlyBracket_def LeftSquareBracket_def
  RightSquareBracket_def LeftAngleBracket_def RightAngleBracket_def LeftParenthesis_def
  RightParenthesis_def SingleQuote_def DoubleQuote_def Comma_def Colon_def Semicolon_def
  ExclamationPoint_def Backslash_def ForwardSlash_def QuestionMark_def Dash_def Plus_def
  EqualsSign_def Period_def Underscore_def Ampersand_def VerticalBar_def Space_def Tab_def
  CarriageReturn_def NewLine_def CarriageReturnNewLine_def Asterisk_def Percent_def Hash_def
  Letters_def Digits_def Unrecognized_def

lemma switch_lexedTo:
  assumes "i < length s"
  shows "lexedTo s k i (Lexer_switch (Some [s ! i]) (k + int i) (lexerAt s k i cl))"
proof -
  define CR where "CR = (let (b, l') = Lexer_nextCharacter (lexerAt s k i cl)
        in if \<not> b then l'\<lparr>currentLex := Some (CarriageReturn (k + int i))\<rparr>
           else if Lexer_getCurrentCharacter l' \<noteq> Some [0x0A]
           then l'\<lparr>currentLex := Some (CarriageReturn (k + int i))\<rparr>
           else Lexer_single (CarriageReturnNewLine (k + int i)) l')"
  define LE where "LE = (let (t, it') = readLetters (iterator (lexerAt s k i cl))
        in (lexerAt s k i cl)\<lparr>iterator := it', currentLex := Some (Letters t (k + int i))\<rparr>)"
  define DI where "DI = (let (t, it') = readDigits (iterator (lexerAt s k i cl))
        in (lexerAt s k i cl)\<lparr>iterator := it', currentLex := Some (Digits t (k + int i))\<rparr>)"
  have cr: "s ! i = 0x0D \<Longrightarrow> lexedTo s k i CR"
    unfolding CR_def using cr_lexedTo[OF assms] by simp
  have le: "lexedTo s k i LE"
    unfolding LE_def readLetters_def
    by (rule read_lexedTo[OF assms]) (simp_all add: Letters_def Lex_new_def)
  have di: "lexedTo s k i DI"
    unfolding DI_def readDigits_def
    by (rule read_lexedTo[OF assms]) (simp_all add: Digits_def Lex_new_def)
  note single = single_lexedTo[OF assms, of _ k cl]
  show ?thesis
    unfolding Lexer_switch_def CR_def[symmetric] LE_def[symmetric] DI_def[symmetric]
    using cr le di assms
    by (auto intro!: single simp: factory_defs Lex_new_def js_def lexerAt_getCurrentCharacter)
qed

lemma lexerAt_next:
  assumes "i < length s" and "- (2 ^ 53) \<le> k + int i" and "k + int i \<le> 2 ^ 53"
  shows "\<exists>l'. Lexer_next (lexerAt s k i cl) = (True, l') \<and> lexedTo s k i l'"
proof -
  let ?l = "lexerAt s k i cl"
  have hs: "Lexer_hasStarted ?l"
    by (simp add: Lexer_hasStarted_def StringIterator_hasStarted_def lexerAt_def cursorAt_def)
  have hc: "Lexer_hasCurrentCharacter ?l"
    using assms(1) cursorAt_hasCurrent[of i s]
    by (simp add: Lexer_hasCurrentCharacter_def lexerAt_def)
  have ix: "Lexer_getCurrentCharacterStartIndex ?l = Some (k + int i)"
    using assms(1) cursorAt_hasCurrent[of i s]
    using toDouble_exact[OF assms(2,3)]
    by (simp add: Lexer_getCurrentCharacterStartIndex_def StringIterator_currentIndex_def
          lexerAt_def) (simp add: cursorAt_def add.commute)
  have n: "Lexer_next ?l = (Lexer_hasCurrent (Lexer_switch (Some [s ! i]) (k + int i) ?l),
                            Lexer_switch (Some [s ! i]) (k + int i) ?l)"
    using hs hc ix lexerAt_getCurrentCharacter[OF assms(1), of k cl]
    by (simp add: Lexer_next_def Let_def)
  have g: "lexedTo s k i (Lexer_switch (Some [s ! i]) (k + int i) ?l)"
    by (rule switch_lexedTo[OF assms(1)])
  then have "Lexer_hasCurrent (Lexer_switch (Some [s ! i]) (k + int i) ?l)"
    by (auto simp: lexedTo_def Lexer_hasCurrent_def isDefined_def lexerAt_def)
  with n g show ?thesis by simp
qed

lemma lexerAt_next_end:
  "Lexer_next (lexerAt s k (length s) cl) = (False, lexerAt s k (length s) None)"
  using cursorAt_hasCurrent[of "length s" s]
  by (simp add: Lexer_next_def Let_def Lexer_hasStarted_def StringIterator_hasStarted_def
        Lexer_hasCurrentCharacter_def Lexer_hasCurrent_def isDefined_def lexerAt_def)
     (simp add: cursorAt_def)

lemma Lexer_new_next:
  "Lexer_next (Lexer_new s ko)
     = Lexer_next (lexerAt s (case ko of None \<Rightarrow> 0 | Some i \<Rightarrow> i) 0 None)"
proof -
  have a: "\<not> Lexer_hasStarted (Lexer_new s ko)"
    by (simp add: Lexer_hasStarted_def StringIterator_hasStarted_def Lexer_new_def
          StringIterator_new_def Let_def)
  have b: "snd (Lexer_nextCharacter (Lexer_new s ko))
             = lexerAt s (case ko of None \<Rightarrow> 0 | Some i \<Rightarrow> i) 0 None"
    by (simp add: Lexer_nextCharacter_def Lexer_new_def new_next lexerAt_def)
  have c: "Lexer_hasStarted (lexerAt s k 0 None)" for k
    by (simp add: Lexer_hasStarted_def StringIterator_hasStarted_def lexerAt_def cursorAt_def)
  show ?thesis
    using a b c by (simp add: Lexer_next_def)
qed

fun tiles :: "int \<Rightarrow> Lex list \<Rightarrow> jsstring \<Rightarrow> bool" where
  "tiles start [] s = (s = [])"
| "tiles start (t # ts) s =
     (case lex_text t of None \<Rightarrow> False
      | Some p \<Rightarrow> p \<noteq> [] \<and> lex_startIndex t = start \<and> take (length p) s = p \<and>
          tiles (start + int (length p)) ts (drop (length p) s))"

lemma foreach_loop_lexerAt:
  assumes lo: "- (2 ^ 53) \<le> k" and hi: "k + int (length s) \<le> 2 ^ 53"
  shows "i \<le> length s \<Longrightarrow>
   \<exists>toks. Lexer_foreach_loop (lexerAt s k i cl) acc
            = (acc @ map Some toks, lexerAt s k (length s) None)
        \<and> tiles (k + int i) toks (drop i s)"
proof (induction "length s - i" arbitrary: i cl acc rule: less_induct)
  case less
  show ?case
  proof (cases "i < length s")
    case False
    then have e: "i = length s" using less.prems by simp
    show ?thesis
      by (rule exI[of _ "[]"], subst Lexer_foreach_loop.simps)
         (simp add: e lexerAt_next_end)
  next
    case True
    have "- (2 ^ 53) \<le> k + int i" "k + int i \<le> 2 ^ 53" using lo hi True by simp_all
    from lexerAt_next[OF True this, of cl] obtain l' where
      n: "Lexer_next (lexerAt s k i cl) = (True, l')" and g: "lexedTo s k i l'" by blast
    from g obtain j t where j: "i < j" "j \<le> length s" "l' = lexerAt s k j (Some t)"
      "lex_text t = Some (take (j - i) (drop i s))" "lex_startIndex t = k + int i"
      unfolding lexedTo_def by blast
    have "length s - j < length s - i" using j True by simp
    from less.hyps[OF this j(2), of "Some t" "acc @ [Some t]"] obtain toks where
      toks: "Lexer_foreach_loop (lexerAt s k j (Some t)) (acc @ [Some t])
               = ((acc @ [Some t]) @ map Some toks, lexerAt s k (length s) None)"
      "tiles (k + int j) toks (drop j s)" by blast
    have len: "length (take (j - i) (drop i s)) = j - i" using j by simp
    have "tiles (k + int i) (t # toks) (drop i s)"
      using j toks(2) by (simp add: len) 
    moreover have gc: "Lexer_getCurrent (lexerAt s k j (Some t)) = Some t"
      by (simp add: Lexer_getCurrent_def lexerAt_def)
    have "Lexer_foreach_loop (lexerAt s k i cl) acc
            = (acc @ map Some (t # toks), lexerAt s k (length s) None)"
      by (subst Lexer_foreach_loop.simps) (simp add: n j(3) toks(1) gc)
    ultimately show ?thesis by blast
  qed
qed

lemma tiles_pieces:
  "tiles start toks s \<Longrightarrow>
   \<exists>pieces. map Lex_toString toks = map Some pieces \<and> concat pieces = s \<and>
     (\<forall>p\<in>set pieces. p \<noteq> []) \<and>
     (\<forall>j<length toks. lex_startIndex (toks ! j)
          = start + sum_list (map (\<lambda>p. int (length p)) (take j pieces)))"
proof (induction toks arbitrary: start s)
  case Nil
  then show ?case by simp
next
  case (Cons t toks)
  from Cons.prems obtain p where p: "lex_text t = Some p" "p \<noteq> []" "lex_startIndex t = start"
    "take (length p) s = p" "tiles (start + int (length p)) toks (drop (length p) s)"
    by (auto split: option.splits)
  from Cons.IH[OF p(5)] obtain pieces where ps:
    "map Lex_toString toks = map Some pieces" "concat pieces = drop (length p) s"
    "\<forall>p\<in>set pieces. p \<noteq> []"
    "\<forall>j<length toks. lex_startIndex (toks ! j)
          = start + int (length p) + sum_list (map (\<lambda>p. int (length p)) (take j pieces))"
    by blast
  have c: "concat (p # pieces) = s"
    using ps(2) p(4) by (metis append_take_drop_id concat.simps(2))
  have ix: "\<forall>j<length (t # toks). lex_startIndex ((t # toks) ! j)
          = start + sum_list (map (\<lambda>p. int (length p)) (take j (p # pieces)))"
  proof (intro allI impI)
    fix j assume "j < length (t # toks)"
    then show "lex_startIndex ((t # toks) ! j)
          = start + sum_list (map (\<lambda>p. int (length p)) (take j (p # pieces)))"
      using ps(4) p(3) by (cases j) auto
  qed
  have ts: "Lex_toString t = Some p" using p(1) by (simp add: Lex_toString_def)
  show ?case
    apply (rule exI[of _ "p # pieces"])
    using ps(1,3) ts p(2) c ix by simp
qed

text \<open>
  C10, as the code has it. For every text \<open>s\<close> and every integer starting offset \<open>k\<close> (0 when
  absent) with \<open>-2\<^sup>5\<^sup>3 \<le> k\<close> and \<open>k + length s \<le> 2\<^sup>5\<^sup>3\<close>, the lexer over \<open>s\<close> runs to
  exhaustion and yields lexes whose texts, concatenated in order, are \<open>s\<close>; no lex is empty,
  so every lex consumes at least one character; the start index of each lex is \<open>k\<close> plus the
  sum of the lengths of the lexes before it; and the cursor ends at the length of \<open>s\<close>.
\<close>

theorem lexer_tiles_text:
  assumes "- (2 ^ 53) \<le> (case ko of None \<Rightarrow> 0 | Some k \<Rightarrow> k)"
      and "(case ko of None \<Rightarrow> 0 | Some k \<Rightarrow> k) + int (length s) \<le> 2 ^ 53"
  shows "\<exists>toks pieces.
      fst (Lexer_toArray (Lexer_new s ko)) = map Some toks
    \<and> map Lex_toString toks = map Some pieces
    \<and> map Lex_getLength toks = map (\<lambda>p. Some (int (length p))) pieces
    \<and> concat pieces = s
    \<and> (\<forall>p\<in>set pieces. p \<noteq> [])
    \<and> (\<forall>j<length toks. lex_startIndex (toks ! j)
          = (case ko of None \<Rightarrow> 0 | Some k \<Rightarrow> k)
            + sum_list (map (\<lambda>p. int (length p)) (take j pieces)))
    \<and> it_currentIndex (iterator (snd (Lexer_toArray (Lexer_new s ko)))) = int (length s)
    \<and> \<not> Lexer_hasCurrent (snd (Lexer_toArray (Lexer_new s ko)))"
proof -
  define k where "k = (case ko of None \<Rightarrow> 0 | Some k \<Rightarrow> k)"
  have bounds: "- (2 ^ 53) \<le> k" "k + int (length s) \<le> 2 ^ 53"
    using assms by (simp_all add: k_def)
  have nh: "\<not> Lexer_hasCurrent (Lexer_new s ko)"
    by (simp add: Lexer_hasCurrent_def Lexer_new_def isDefined_def)
  have "Lexer_foreach_loop (Lexer_new s ko) [] = Lexer_foreach_loop (lexerAt s k 0 None) []"
    by (subst Lexer_foreach_loop.simps, subst (2) Lexer_foreach_loop.simps)
       (simp add: Lexer_new_next k_def)
  then have ta: "Lexer_toArray (Lexer_new s ko) = Lexer_foreach_loop (lexerAt s k 0 None) []"
    using nh by (simp add: Lexer_toArray_def)
  from foreach_loop_lexerAt[OF bounds, of 0 None "[]"] obtain toks where
    toks: "Lexer_foreach_loop (lexerAt s k 0 None) [] = (map Some toks, lexerAt s k (length s) None)"
      "tiles k toks s" by auto
  from tiles_pieces[OF toks(2)] obtain pieces where ps:
    "map Lex_toString toks = map Some pieces" "concat pieces = s"
    "\<forall>p\<in>set pieces. p \<noteq> []"
    "\<forall>j<length toks. lex_startIndex (toks ! j)
          = k + sum_list (map (\<lambda>p. int (length p)) (take j pieces))"
    by blast
  have "Lex_getLength t = map_option (\<lambda>p. int (length p)) (Lex_toString t)" for t
    by (simp add: Lex_getLength_def Lex_toString_def split: option.splits)
  then have "map Lex_getLength toks
               = map (map_option (\<lambda>p. int (length p))) (map Lex_toString toks)"
    by simp
  then have gl: "map Lex_getLength toks = map (\<lambda>p. Some (int (length p))) pieces"
    unfolding ps(1) by simp
  have fin: "it_currentIndex (iterator (lexerAt s k (length s) None)) = int (length s)"
    "\<not> Lexer_hasCurrent (lexerAt s k (length s) None)"
    by (simp_all add: lexerAt_def cursorAt_def Lexer_hasCurrent_def isDefined_def)
  show ?thesis
    apply (rule exI[of _ toks], rule exI[of _ pieces])
    using ta toks(1) ps gl fin by (simp add: k_def)
qed

theorem lexer_tiles_text_witness:
  "(\<exists>toks pieces.
      fst (Lexer_toArray (Lexer_new (js ''ab 1'') (Some 7))) = map Some toks
    \<and> map Lex_toString toks = map Some pieces
    \<and> map Lex_getLength toks = map (\<lambda>p. Some (int (length p))) pieces
    \<and> concat pieces = js ''ab 1''
    \<and> (\<forall>p\<in>set pieces. p \<noteq> [])
    \<and> (\<forall>j<length toks. lex_startIndex (toks ! j)
          = 7 + sum_list (map (\<lambda>p. int (length p)) (take j pieces)))
    \<and> it_currentIndex (iterator (snd (Lexer_toArray (Lexer_new (js ''ab 1'') (Some 7))))) = 4
    \<and> \<not> Lexer_hasCurrent (snd (Lexer_toArray (Lexer_new (js ''ab 1'') (Some 7)))))
   \<and> fst (Lexer_toArray (Lexer_new (js ''ab 1'') (Some 7)))
       = [Some (Letters (Some (js ''ab'')) 7), Some (Space 9), Some (Digits (Some (js ''1'')) 10)]"
proof -
  have "fst (Lexer_toArray (Lexer_new (js ''ab 1'') (Some 7)))
       = [Some (Letters (Some (js ''ab'')) 7), Some (Space 9), Some (Digits (Some (js ''1'')) 10)]"
    by (simp add: lexer_eval lex_eval isLetter_samples)
  then show ?thesis
    using lexer_tiles_text[of "Some 7" "js ''ab 1''"] by (simp add: js_def)
qed

text \<open>
  C10 as stated, for every starting offset, fails where the sum of the offset and the
  index is no longer exact. From the offset \<open>2\<^sup>5\<^sup>3\<close>, the three lexes of \<open>"{}["\<close>, each of
  length 1, have the start indices \<open>2\<^sup>5\<^sup>3\<close>, \<open>2\<^sup>5\<^sup>3\<close> and \<open>2\<^sup>5\<^sup>3 + 2\<close>: the second is not the offset
  plus the length of the first, and the first two lexes start at the same index.
\<close>

theorem lexer_offset_rounds:
  "fst (Lexer_toArray (Lexer_new (js ''{}['') (Some (2 ^ 53))))
     = [Some (LeftCurlyBracket (2 ^ 53)), Some (RightCurlyBracket (2 ^ 53)),
        Some (LeftSquareBracket (2 ^ 53 + 2))]
   \<and> Lex_getLength (LeftCurlyBracket (2 ^ 53)) = Some 1
   \<and> lex_startIndex (RightCurlyBracket (2 ^ 53)) \<noteq> 2 ^ 53 + 1"
  by (simp add: lexer_eval factory_defs Lex_new_def Lex_getLength_def isLetter_def
        letterRanges_def roundToMultiple_def bitLength.simps)

section \<open>The iterators simulate their views\<close>

text \<open>
  What the methods of an iterator answer is determined by the value it is at, if it is
  at one, and by the values it has still to reach: its view. \<open>view_next\<close> is what \<open>next()\<close>
  does to the view. A state is well formed when the index of an array-list iterator is
  one that \<open>next()\<close> can reach and every concatenation has its second iterator. \<open>pending\<close>
  is the number of values a \<open>SkipIterator\<close> has still to skip, and \<open>room\<close> the number of
  values a \<open>TakeIterator\<close> can still take. The shape of an iterator is what no method changes: the
  array lists, the text and the bounds of a string cursor, the conditions, the counts to
  skip and to take, the map functions. \<open>Sim it\<close> says that \<open>hasCurrent()\<close>, \<open>getCurrent()\<close>
  and \<open>next()\<close> of \<open>it\<close> return, answer what the view says, and leave a well-formed
  iterator of the same shape whose view is the same, or the next one for \<open>next()\<close>.
\<close>

type_synonym 'a view = "'a option option \<times> 'a option list"

definition view_next :: "'a view \<Rightarrow> 'a view" where
  "view_next v = (case snd v of [] \<Rightarrow> (None, []) | y # ys \<Rightarrow> (Some y, ys))"

definition currentValue :: "'a view \<Rightarrow> 'a option" where
  "currentValue v = (case fst v of None \<Rightarrow> None | Some x \<Rightarrow> x)"

definition startedAt :: "'a option list \<Rightarrow> 'a view" where
  "startedAt xs = (case xs of [] \<Rightarrow> (None, []) | y # ys \<Rightarrow> (Some y, ys))"

definition StringIterator_values :: "'a StringIterator \<Rightarrow> 'a option list" where
  "StringIterator_values si =
     map (index (it_text si))
       (if StringIterator_step si > 0 then [it_currentIndex si..it_endIndex si - 1]
        else rev [it_endIndex si + 1..it_currentIndex si])"

definition pending :: "number option \<Rightarrow> number \<Rightarrow> nat" where
  "pending toSkip skipped =
     (case (toNumber toSkip, skipped) of
        (Num n, Num s) \<Rightarrow> if s < n then nat \<lceil>n - s\<rceil> else 0
      | _ \<Rightarrow> 0)"

definition room :: "number option \<Rightarrow> number \<Rightarrow> nat" where
  "room toTake taken =
     (case (toNumber toTake, taken) of
        (Num n, Num t) \<Rightarrow> nat \<lfloor>n - t\<rfloor>
      | _ \<Rightarrow> 0)"

fun view :: "'a Iterator \<Rightarrow> 'a view" where
  "view (ArrayListForwardIterator l i) =
     (case i of None \<Rightarrow> (None, l) | Some n \<Rightarrow> startedAt (drop (nat n) l))"
| "view (ArrayListReverseIterator l i) =
     (case i of None \<Rightarrow> (None, rev l) | Some n \<Rightarrow> startedAt (rev (take (nat (n + 1)) l)))"
| "view (StringIteratorOf si) =
     (if it_started si then startedAt (StringIterator_values si)
      else (None, StringIterator_values si))"
| "view (WhereIterator inner c) =
     (case c of None \<Rightarrow> view inner
      | Some p \<Rightarrow> (fst (view inner), filter p (snd (view inner))))"
| "view (SkipIterator inner toSkip skipped) =
     (case fst (view inner) of
        None \<Rightarrow> (None, drop (pending toSkip skipped) (snd (view inner)))
      | Some v \<Rightarrow> startedAt (drop (pending toSkip skipped) (v # snd (view inner))))"
| "view (TakeIterator inner toTake taken) =
     (if isDefined toTake \<and> number_lessEq taken (toNumber toTake)
      then (fst (view inner), take (room toTake taken) (snd (view inner)))
      else (None, []))"
| "view (MapIterator inner mapFunction started) =
     (case mapFunction of None \<Rightarrow> (None, [])
      | Some f \<Rightarrow> (map_option f (fst (view inner)), map f (snd (view inner))))"
| "view (ConcatenateIterator first second) =
     (case second of
        None \<Rightarrow> view first
      | Some s \<Rightarrow>
          ((case fst (view first) of Some v \<Rightarrow> Some v | None \<Rightarrow> fst (view s)),
           snd (view first) @ snd (view s)))"

fun wellFormed :: "'a Iterator \<Rightarrow> bool" where
  "wellFormed (ArrayListForwardIterator l i) =
     (case i of None \<Rightarrow> True | Some n \<Rightarrow> 0 \<le> n \<and> n \<le> int (length l))"
| "wellFormed (ArrayListReverseIterator l i) =
     (case i of None \<Rightarrow> True | Some n \<Rightarrow> - 1 \<le> n \<and> n < int (length l))"
| "wellFormed (StringIteratorOf si) = True"
| "wellFormed (WhereIterator inner c) = wellFormed inner"
| "wellFormed (SkipIterator inner toSkip skipped) = wellFormed inner"
| "wellFormed (TakeIterator inner toTake taken) = wellFormed inner"
| "wellFormed (MapIterator inner mapFunction started) = wellFormed inner"
| "wellFormed (ConcatenateIterator first second) =
     (case second of None \<Rightarrow> False | Some s \<Rightarrow> wellFormed first \<and> wellFormed s)"

fun shape :: "'a Iterator \<Rightarrow> 'a Iterator" where
  "shape (ArrayListForwardIterator l i) = ArrayListForwardIterator l None"
| "shape (ArrayListReverseIterator l i) = ArrayListReverseIterator l None"
| "shape (StringIteratorOf si) =
     StringIteratorOf (si\<lparr>it_currentIndex := it_startIndex si, it_started := False\<rparr>)"
| "shape (WhereIterator inner c) = WhereIterator (shape inner) c"
| "shape (SkipIterator inner toSkip skipped) = SkipIterator (shape inner) toSkip NaN"
| "shape (TakeIterator inner toTake taken) = TakeIterator (shape inner) toTake NaN"
| "shape (MapIterator inner mapFunction started) = MapIterator (shape inner) mapFunction False"
| "shape (ConcatenateIterator first second) =
     ConcatenateIterator (shape first) (map_option shape second)"

definition Sim :: "'a Iterator \<Rightarrow> bool" where
  "Sim it =
     ((\<exists>it'. call HasCurrent it = Some (fst (view it) \<noteq> None, None, it') \<and> wellFormed it' \<and>
            view it' = view it \<and> shape it' = shape it)
    \<and> (\<exists>it'. call GetCurrent it = Some (False, currentValue (view it), it') \<and> wellFormed it' \<and>
            view it' = view it \<and> shape it' = shape it)
    \<and> (\<exists>it'. call Next it = Some (snd (view it) \<noteq> [], None, it') \<and> wellFormed it' \<and>
            view it' = view_next (view it) \<and> shape it' = shape it))"

lemma view_next_startedAt [simp]: "view_next (c, xs) = startedAt xs"
  by (simp add: view_next_def startedAt_def)

lemma view_next_eq: "view_next v = startedAt (snd v)"
  by (simp add: view_next_def startedAt_def)

lemma startedAt_simps [simp]:
  "startedAt [] = (None, [])" "startedAt (y # ys) = (Some y, ys)"
  by (simp_all add: startedAt_def)

lemma fst_startedAt: "fst (startedAt xs) \<noteq> None \<longleftrightarrow> xs \<noteq> []"
  by (cases xs) simp_all

lemma fst_startedAt_Some [simp]: "(\<exists>y. fst (startedAt xs) = Some y) \<longleftrightarrow> xs \<noteq> []"
  by (cases xs) simp_all

lemma snd_startedAt: "snd (startedAt xs) = tl xs"
  by (cases xs) simp_all

lemma currentValue_startedAt:
  "currentValue (startedAt xs) = (case xs of [] \<Rightarrow> None | y # ys \<Rightarrow> y)"
  by (cases xs) (simp_all add: currentValue_def)

subsection \<open>The array-backed iterators\<close>

lemma Sim_ArrayListForwardIterator:
  assumes "wellFormed (ArrayListForwardIterator l i)"
  shows "Sim (ArrayListForwardIterator l i)"
proof (cases i)
  case None
  then show ?thesis
    by (cases l)
       (simp_all add: Sim_def call_simps ArrayListForwardIterator_call_def isDefined_def
          ArrayListForwardIterator_next_def ArrayListForwardIterator_atEnd_def
          ArrayList_get_def ArrayList_getCount_def currentValue_def)
next
  case (Some n)
  then have n: "0 \<le> n" "n \<le> int (length l)" using assms by simp_all
  show ?thesis
  proof (cases "n = int (length l)")
    case True
    then show ?thesis using Some
      by (simp add: Sim_def call_simps ArrayListForwardIterator_call_def isDefined_def
          ArrayListForwardIterator_next_def ArrayListForwardIterator_atEnd_def
          ArrayList_get_def ArrayList_getCount_def currentValue_def)
  next
    case False
    then have lt: "nat n < length l" using n by linarith
    have d: "drop (nat n) l = l ! nat n # drop (Suc (nat n)) l"
      using lt by (simp add: Cons_nth_drop_Suc)
    have s: "nat (n + 1) = Suc (nat n)" using n by linarith
    show ?thesis using Some n False lt
      by (auto simp: Sim_def call_simps ArrayListForwardIterator_call_def isDefined_def
          ArrayListForwardIterator_next_def ArrayListForwardIterator_atEnd_def
          ArrayList_get_def ArrayList_getCount_def currentValue_def d s Let_def)
  qed
qed

lemma Sim_ArrayListReverseIterator:
  assumes "wellFormed (ArrayListReverseIterator l i)"
  shows "Sim (ArrayListReverseIterator l i)"
proof (cases i)
  case None
  show ?thesis using None
    by (cases "rev l")
       (simp_all add: Sim_def call_simps ArrayListReverseIterator_call_def isDefined_def
          ArrayListReverseIterator_next_def ArrayListReverseIterator_atEnd_def
          ArrayList_get_def ArrayList_getCount_def currentValue_def Let_def)
next
  case (Some n)
  then have n: "- 1 \<le> n" "n < int (length l)" using assms by simp_all
  show ?thesis
  proof (cases "n = - 1")
    case True
    then show ?thesis using Some
      by (simp add: Sim_def call_simps ArrayListReverseIterator_call_def isDefined_def
          ArrayListReverseIterator_next_def ArrayListReverseIterator_atEnd_def
          ArrayList_get_def ArrayList_getCount_def currentValue_def)
  next
    case False
    then have ge: "0 \<le> n" using n by linarith
    have lt: "nat n < length l" using n ge by linarith
    have s: "nat (n + 1) = Suc (nat n)" using ge by linarith
    have t: "rev (take (Suc (nat n)) l) = l ! nat n # rev (take (nat n) l)"
      using lt by (simp add: take_Suc_conv_app_nth)
    show ?thesis using Some n False lt ge
      by (auto simp: Sim_def call_simps ArrayListReverseIterator_call_def isDefined_def
          ArrayListReverseIterator_next_def ArrayListReverseIterator_atEnd_def
          ArrayList_get_def ArrayList_getCount_def currentValue_def s t Let_def)
  qed
qed

subsection \<open>The string cursor\<close>

lemma StringIterator_values_Nil:
  "StringIterator_values si = [] \<longleftrightarrow> \<not> StringIterator_hasMore si"
  by (auto simp: StringIterator_values_def StringIterator_hasMore_def)

lemma StringIterator_values_Cons:
  assumes "StringIterator_hasMore si"
  shows "StringIterator_values si
           = index (it_text si) (it_currentIndex si)
             # StringIterator_values
                 (si\<lparr>it_currentIndex := it_currentIndex si + StringIterator_step si\<rparr>)"
proof (cases "it_startIndex si \<le> it_endIndex si")
  case True
  then have "it_currentIndex si \<le> it_endIndex si - 1"
    using assms by (simp add: StringIterator_hasMore_def StringIterator_step_def)
  then have "[it_currentIndex si..it_endIndex si - 1]
               = it_currentIndex si # [it_currentIndex si + 1..it_endIndex si - 1]"
    by (simp add: upto_rec1)
  then show ?thesis using True
    by (simp add: StringIterator_values_def StringIterator_step_def)
next
  case False
  then have "it_endIndex si + 1 \<le> it_currentIndex si"
    using assms by (simp add: StringIterator_hasMore_def StringIterator_step_def)
  then have "[it_endIndex si + 1..it_currentIndex si]
               = [it_endIndex si + 1..it_currentIndex si - 1] @ [it_currentIndex si]"
    by (simp add: upto_rec2)
  then show ?thesis using False
    by (simp add: StringIterator_values_def StringIterator_step_def)
qed

lemma StringIterator_values_started [simp]:
  "StringIterator_values (si\<lparr>it_started := b\<rparr>) = StringIterator_values si"
  by (simp add: StringIterator_values_def StringIterator_step_def)

lemma StringIterator_hasMore_started [simp]:
  "StringIterator_hasMore (si\<lparr>it_started := b\<rparr>) = StringIterator_hasMore si"
  by (simp add: StringIterator_hasMore_def StringIterator_step_def)

lemma Sim_StringIteratorOf: "Sim (StringIteratorOf si)"
proof (cases "it_started si")
  case False
  then show ?thesis
    by (simp add: Sim_def call_simps StringIterator_call_def StringIterator_hasCurrent_def
          StringIterator_hasStarted_def StringIterator_getCurrent_def StringIterator_next_def
          currentValue_def StringIterator_values_Nil Let_def)
next
  case st: True
  show ?thesis
  proof (cases "StringIterator_hasMore si")
    case False
    then have "StringIterator_values si = []" by (simp add: StringIterator_values_Nil)
    then show ?thesis using st False
      by (simp add: Sim_def call_simps StringIterator_call_def StringIterator_hasCurrent_def
          StringIterator_hasStarted_def StringIterator_getCurrent_def StringIterator_next_def
          currentValue_def Let_def)
  next
    case True
    let ?si' = "si\<lparr>it_currentIndex := it_currentIndex si + StringIterator_step si\<rparr>"
    have v: "StringIterator_values si
               = index (it_text si) (it_currentIndex si) # StringIterator_values ?si'"
      by (rule StringIterator_values_Cons[OF True])
    have n: "StringIterator_hasMore ?si' \<longleftrightarrow> StringIterator_values ?si' \<noteq> []"
      by (simp add: StringIterator_values_Nil)
    show ?thesis using st True
      by (simp add: Sim_def call_simps StringIterator_call_def StringIterator_hasCurrent_def
          StringIterator_hasStarted_def StringIterator_getCurrent_def StringIterator_next_def
          currentValue_def v n Let_def)
  qed
qed

subsection \<open>The decorators\<close>

text \<open>
  A decorator simulates its view when every iterator of the shape of its inner iterator
  does; \<open>after m it\<close> is the iterator that the call of \<open>m\<close> leaves.
\<close>

definition after :: "methodName \<Rightarrow> 'a Iterator \<Rightarrow> 'a Iterator" where
  "after m it = (case call m it of Some (b, v, it') \<Rightarrow> it' | None \<Rightarrow> it)"

definition SimAll :: "'a Iterator \<Rightarrow> bool" where
  "SimAll sh = (\<forall>i. shape i = sh \<longrightarrow> wellFormed i \<longrightarrow> Sim i)"

lemma SimAll_has:
  assumes "SimAll sh" "shape i = sh" "wellFormed i"
  shows "call HasCurrent i = Some (fst (view i) \<noteq> None, None, after HasCurrent i)"
    and "wellFormed (after HasCurrent i)" and "view (after HasCurrent i) = view i"
    and "shape (after HasCurrent i) = sh"
  using assms by (auto simp: SimAll_def Sim_def after_def)

lemma SimAll_get:
  assumes "SimAll sh" "shape i = sh" "wellFormed i"
  shows "call GetCurrent i = Some (False, currentValue (view i), after GetCurrent i)"
    and "wellFormed (after GetCurrent i)" and "view (after GetCurrent i) = view i"
    and "shape (after GetCurrent i) = sh"
  using assms by (auto simp: SimAll_def Sim_def after_def)

lemma SimAll_next:
  assumes "SimAll sh" "shape i = sh" "wellFormed i"
  shows "call Next i = Some (snd (view i) \<noteq> [], None, after Next i)"
    and "wellFormed (after Next i)" and "view (after Next i) = startedAt (snd (view i))"
    and "shape (after Next i) = sh"
  using assms by (auto simp: SimAll_def Sim_def after_def view_next_def startedAt_def)

lemmas SimAll_simps = SimAll_has SimAll_get SimAll_next

lemma IteratorDecorator_call_simps:
  "IteratorDecorator_call self m (WhereIterator inner c)
     = self m inner \<bind> (\<lambda>(b, v, inner'). Some (b, v, WhereIterator inner' c))"
  "IteratorDecorator_call self m (SkipIterator inner toSkip skipped)
     = self m inner \<bind> (\<lambda>(b, v, inner'). Some (b, v, SkipIterator inner' toSkip skipped))"
  "IteratorDecorator_call self m (TakeIterator inner toTake taken)
     = self m inner \<bind> (\<lambda>(b, v, inner'). Some (b, v, TakeIterator inner' toTake taken))"
  by (simp_all add: IteratorDecorator_call_def)

lemma filter_dropWhile_not: "filter p (dropWhile (\<lambda>x. \<not> p x) xs) = filter p xs"
  by (induction xs) auto

lemma dropWhile_not_Nil: "dropWhile (\<lambda>x. \<not> p x) xs = [] \<longleftrightarrow> filter p xs = []"
  by (induction xs) auto

lemma startedAt_filter_dropWhile:
  "(fst (startedAt (dropWhile (\<lambda>x. \<not> p x) xs)),
    filter p (snd (startedAt (dropWhile (\<lambda>x. \<not> p x) xs)))) = startedAt (filter p xs)"
proof (cases "dropWhile (\<lambda>x. \<not> p x) xs")
  case Nil
  then have "filter p xs = []" by (simp add: dropWhile_not_Nil)
  then show ?thesis unfolding Nil by simp
next
  case (Cons y ys)
  then have "p y" by (metis hd_dropWhile list.sel(1) list.simps(3))
  moreover have "filter p xs = filter p (y # ys)"
    using Cons filter_dropWhile_not[of p xs] by simp
  ultimately show ?thesis using Cons by simp
qed

lemma WhereNextLoop_sim:
  assumes all: "SimAll sh"
  shows "shape inner = sh \<Longrightarrow> wellFormed inner \<Longrightarrow>
    \<exists>inner'. call WhereNextLoop (WhereIterator inner (Some p))
               = Some (False, None, WhereIterator inner' (Some p))
      \<and> wellFormed inner' \<and> shape inner' = sh
      \<and> view inner' = startedAt (dropWhile (\<lambda>x. \<not> p x) (snd (view inner)))"
proof (induction "length (snd (view inner))" arbitrary: inner rule: less_induct)
  case less
  note S = SimAll_simps[OF all]
  show ?case
  proof (cases "snd (view inner)")
    case Nil
    then show ?thesis using less.prems
      by (simp add: call_WhereIterator[of WhereNextLoop] WhereIterator_call_def
            IteratorDecorator_call_simps S)
  next
    case (Cons y ys)
    let ?i1 = "after Next inner"
    let ?i2 = "after GetCurrent ?i1"
    have v1: "view ?i1 = (Some y, ys)" using less.prems Cons by (simp add: S)
    have v2: "view ?i2 = (Some y, ys)" using less.prems v1 by (simp add: S)
    have w2: "wellFormed ?i2" "shape ?i2 = sh" using less.prems by (simp_all add: S)
    show ?thesis
    proof (cases "p y")
      case True
      then show ?thesis using less.prems Cons v1 v2 w2
        by (simp add: call_WhereIterator[of WhereNextLoop] call_WhereIterator[of GetCurrent]
              WhereIterator_call_def IteratorDecorator_call_simps S currentValue_def)
    next
      case False
      have "length (snd (view ?i2)) < length (snd (view inner))" using v2 Cons by simp
      from less.hyps[OF this w2(2) w2(1)] obtain inner' where
        r: "call WhereNextLoop (WhereIterator ?i2 (Some p))
               = Some (False, None, WhereIterator inner' (Some p))"
          "wellFormed inner'" "shape inner' = sh"
          "view inner' = startedAt (dropWhile (\<lambda>x. \<not> p x) (snd (view ?i2)))"
        by blast
      have "call WhereNextLoop (WhereIterator inner (Some p))
              = call WhereNextLoop (WhereIterator ?i2 (Some p))"
        using less.prems Cons v1 False
        by (subst call_WhereIterator[of WhereNextLoop])
           (simp add: call_WhereIterator[of GetCurrent]
              WhereIterator_call_def IteratorDecorator_call_simps S currentValue_def)
      then show ?thesis using r v2 Cons False by auto
    qed
  qed
qed

lemma Sim_WhereIterator:
  assumes all: "SimAll (shape inner)" and w: "wellFormed inner"
  shows "Sim (WhereIterator inner c)"
proof -
  note S = SimAll_simps[OF all]
  have has: "\<exists>it'. call HasCurrent (WhereIterator inner c)
               = Some (fst (view (WhereIterator inner c)) \<noteq> None, None, it') \<and> wellFormed it' \<and>
            view it' = view (WhereIterator inner c) \<and> shape it' = shape (WhereIterator inner c)"
    using w by (cases c)
      (simp_all add: call_WhereIterator WhereIterator_call_def IteratorDecorator_call_simps S)
  have get: "\<exists>it'. call GetCurrent (WhereIterator inner c)
               = Some (False, currentValue (view (WhereIterator inner c)), it') \<and> wellFormed it' \<and>
            view it' = view (WhereIterator inner c) \<and> shape it' = shape (WhereIterator inner c)"
    using w by (cases c)
      (simp_all add: call_WhereIterator WhereIterator_call_def IteratorDecorator_call_simps S
         currentValue_def)
  have nxt: "\<exists>it'. call Next (WhereIterator inner c)
               = Some (snd (view (WhereIterator inner c)) \<noteq> [], None, it') \<and> wellFormed it' \<and>
            view it' = view_next (view (WhereIterator inner c)) \<and>
            shape it' = shape (WhereIterator inner c)"
  proof (cases c)
    case None
    then show ?thesis using w
      by (simp add: call_WhereIterator WhereIterator_call_def IteratorDecorator_call_simps S
            fst_startedAt view_next_eq)
  next
    case (Some p)
    from WhereNextLoop_sim[OF all refl w, of p] obtain inner' where
      r: "call WhereNextLoop (WhereIterator inner (Some p))
               = Some (False, None, WhereIterator inner' (Some p))"
         "wellFormed inner'" "shape inner' = shape inner"
         "view inner' = startedAt (dropWhile (\<lambda>x. \<not> p x) (snd (view inner)))"
      by blast
    show ?thesis using Some r
      by (simp add: call_WhereIterator[of Next] call_WhereIterator[of HasCurrent]
            WhereIterator_call_def IteratorDecorator_call_simps S
            fst_startedAt dropWhile_not_Nil startedAt_filter_dropWhile view_next_eq
            filter_empty_conv)
  qed
  show ?thesis unfolding Sim_def using has get nxt by blast
qed

definition advanced :: "nat \<Rightarrow> 'a view \<Rightarrow> 'a view" where
  "advanced d v = (if d = 0 then v else startedAt (drop (d - 1) (snd v)))"

lemma advanced_Suc: "advanced (Suc d) v = advanced d (startedAt (snd v))"
  by (cases d) (simp_all add: advanced_def snd_startedAt drop_Suc)

lemma advanced_Nil: "snd v = [] \<Longrightarrow> advanced (Suc d) v = (None, [])"
  by (simp add: advanced_def)

lemma view_SkipIterator:
  "view (SkipIterator inner toSkip skipped) =
     (case fst (view inner) of
        None \<Rightarrow> (None, drop (pending toSkip skipped) (snd (view inner)))
      | Some v \<Rightarrow> startedAt (drop (pending toSkip skipped) (v # snd (view inner))))"
  by simp

lemma view_SkipIterator_done:
  "pending toSkip skipped = 0 \<Longrightarrow> view (SkipIterator inner toSkip skipped) = view inner"
  by (cases "view inner") (auto split: option.splits)

lemma snd_view_SkipIterator:
  "snd (view (SkipIterator inner toSkip skipped))
     = drop (pending toSkip skipped) (snd (view inner))"
  by (cases "pending toSkip skipped")
     (auto simp: snd_startedAt drop_Suc tl_drop split: option.splits)

lemma snd_advanced: "snd (advanced d v) = drop d (snd v)"
  by (cases d) (simp_all add: advanced_def snd_startedAt drop_Suc tl_drop)

lemma advanced_current:
  "fst v = Some x \<Longrightarrow> advanced d v = startedAt (drop d (x # snd v))"
  by (cases d; cases v) (simp_all add: advanced_def)

lemma ceil_step: "\<lceil>n - (s + 1)\<rceil> = \<lceil>n - s\<rceil> - 1" for n s :: rat
proof -
  have "n - (s + 1) = (n - s) - 1" by simp
  then show ?thesis by (simp only: ceiling_diff_one)
qed
lemma pending_0:
  "pending toSkip skipped = 0 \<Longrightarrow> \<not> number_less skipped (toNumber toSkip)"
  by (auto simp: pending_def number_less_def split: number.splits if_splits)

lemma pending_Num:
  "toNumber toSkip = Num n \<Longrightarrow>
   pending toSkip (Num s) = (if s < n then nat \<lceil>n - s\<rceil> else 0)"
  by (simp add: pending_def)

lemma pending_Suc:
  assumes "pending toSkip skipped = Suc d"
  shows "number_less skipped (toNumber toSkip)"
    and "pending toSkip (toNumber toSkip) = 0"
    and "pending toSkip (number_increment skipped) = d"
proof -
  obtain n where n: "toNumber toSkip = Num n"
    using assms by (cases "toNumber toSkip") (simp_all add: pending_def)
  obtain s where s: "skipped = Num s"
    using assms n by (cases skipped) (simp_all add: pending_def)
  have lt: "s < n" and c: "nat \<lceil>n - s\<rceil> = Suc d"
    using assms n s by (simp_all add: pending_Num split: if_splits)
  show "number_less skipped (toNumber toSkip)" using n s lt by (simp add: number_less_def)
  show "pending toSkip (toNumber toSkip) = 0" using n by (simp add: pending_Num)
  show "pending toSkip (number_increment skipped) = d"
  proof (cases "s + 1 < n")
    case True
    have "nat \<lceil>n - (s + 1)\<rceil> = d" using c unfolding ceil_step by linarith
    then show ?thesis using n s True by (simp add: pending_Num number_increment_def)
  next
    case False
    then have "n - s \<le> 1" by simp
    moreover have "0 < n - s" using lt by simp
    ultimately have "\<lceil>n - s\<rceil> = 1" by (simp add: ceiling_eq_iff)
    then have "d = 0" using c by simp
    then show ?thesis using n s False by (simp add: pending_Num number_increment_def)
  qed
qed

lemma SkipValues_sim:
  assumes all: "SimAll sh"
  shows "shape inner = sh \<Longrightarrow> wellFormed inner \<Longrightarrow>
    \<exists>inner' skipped'. call SkipValues (SkipIterator inner toSkip skipped)
               = Some (False, None, SkipIterator inner' toSkip skipped')
      \<and> wellFormed inner' \<and> shape inner' = sh
      \<and> view inner' = advanced (pending toSkip skipped) (view inner)
      \<and> pending toSkip skipped' = 0"
proof (induction "pending toSkip skipped" arbitrary: inner skipped)
  case 0
  then show ?case
    using pending_0[of toSkip skipped]
    by (auto simp: call_SkipIterator[of SkipValues] SkipIterator_call_def advanced_def)
next
  case (Suc d)
  note S = SimAll_simps[OF all]
  note p = pending_Suc[OF Suc.hyps(2)[symmetric]]
  let ?i1 = "after Next inner"
  have i1: "wellFormed ?i1" "shape ?i1 = sh" "view ?i1 = startedAt (snd (view inner))"
    using Suc.prems by (simp_all add: S)
  have unfold: "call SkipValues (SkipIterator inner toSkip skipped)
      = call SkipValues (SkipIterator ?i1 toSkip
           (if snd (view inner) = [] then toNumber toSkip else number_increment skipped))"
    using Suc.prems p(1)
    by (subst call_SkipIterator[of SkipValues])
       (simp add: SkipIterator_call_def IteratorDecorator_call_simps S)
  show ?case
  proof (cases "snd (view inner)")
    case Nil
    have "call SkipValues (SkipIterator ?i1 toSkip (toNumber toSkip))
                 = Some (False, None, SkipIterator ?i1 toSkip (toNumber toSkip))"
      using pending_0[OF p(2)]
      by (simp add: call_SkipIterator[of SkipValues] SkipIterator_call_def)
    then show ?thesis
      using unfold Nil i1 advanced_Nil[of "view inner" d] Suc.hyps(2)[symmetric] p(2)
      by auto
  next
    case (Cons y ys)
    have d: "d = pending toSkip (number_increment skipped)"
      using p(3) by simp
    from Suc.hyps(1)[OF d i1(2) i1(1)] obtain inner' skipped' where
      r: "call SkipValues (SkipIterator ?i1 toSkip (number_increment skipped))
               = Some (False, None, SkipIterator inner' toSkip skipped')"
         "wellFormed inner'" "shape inner' = sh"
         "view inner' = advanced (pending toSkip (number_increment skipped)) (view ?i1)"
         "pending toSkip skipped' = 0"
      by blast
    have "advanced (pending toSkip skipped) (view inner)
            = advanced (pending toSkip (number_increment skipped)) (view ?i1)"
      using Suc.hyps(2)[symmetric] d i1(3) by (simp add: advanced_Suc)
    then show ?thesis using unfold Cons r by auto
  qed
qed

lemma Sim_SkipIterator:
  assumes all: "SimAll (shape inner)" and w: "wellFormed inner"
  shows "Sim (SkipIterator inner toSkip skipped)"
proof -
  note S = SimAll_simps[OF all]
  let ?it = "SkipIterator inner toSkip skipped"
  let ?d = "pending toSkip skipped"
  let ?h = "after HasCurrent inner"
  have h: "wellFormed ?h" "shape ?h = shape inner" "view ?h = view inner"
    using w by (simp_all add: S)
  from SkipValues_sim[OF all h(2) h(1), of toSkip skipped] obtain i2 sk2 where
    sv: "call SkipValues (SkipIterator ?h toSkip skipped)
               = Some (False, None, SkipIterator i2 toSkip sk2)"
       "wellFormed i2" "shape i2 = shape inner" "view i2 = advanced ?d (view inner)"
       "pending toSkip sk2 = 0"
    using h(3) by auto
  have settle: "view (SkipIterator i toSkip sk2) = view ?it"
    if "view i = advanced ?d (view inner)" "fst (view inner) \<noteq> None" for i
  proof -
    from that(2) obtain x where x: "fst (view inner) = Some x" by auto
    have "view (SkipIterator i toSkip sk2) = view i"
      by (rule view_SkipIterator_done[OF sv(5)])
    also have "\<dots> = startedAt (drop ?d (x # snd (view inner)))"
      using that(1) by (simp only: advanced_current[OF x])
    also have "\<dots> = view ?it" using x by simp
    finally show ?thesis .
  qed
  have has: "\<exists>it'. call HasCurrent ?it = Some (fst (view ?it) \<noteq> None, None, it') \<and> wellFormed it' \<and>
            view it' = view ?it \<and> shape it' = shape ?it"
  proof (cases "fst (view inner)")
    case None
    then show ?thesis using w h
      by (simp add: call_SkipIterator[of HasCurrent] SkipIterator_call_def
            IteratorDecorator_call_simps S view_SkipIterator)
  next
    case (Some x)
    have "fst (view i2) \<noteq> None \<longleftrightarrow> fst (view ?it) \<noteq> None"
      using sv(4) Some by (simp add: view_SkipIterator advanced_current)
    then show ?thesis using w h sv Some settle[of "after HasCurrent i2"]
      by (simp add: call_SkipIterator[of HasCurrent] SkipIterator_call_def
            IteratorDecorator_call_simps S)
  qed
  have get: "\<exists>it'. call GetCurrent ?it = Some (False, currentValue (view ?it), it') \<and> wellFormed it' \<and>
            view it' = view ?it \<and> shape it' = shape ?it"
  proof (cases "fst (view inner)")
    case None
    then show ?thesis using w h
      by (simp add: call_SkipIterator[of GetCurrent] SkipIterator_call_def
            IteratorDecorator_call_simps S view_SkipIterator currentValue_def)
  next
    case (Some x)
    have "currentValue (view i2) = currentValue (view ?it)"
      using sv(4) Some by (simp add: view_SkipIterator advanced_current)
    then show ?thesis using w h sv Some settle[of "after GetCurrent i2"]
      by (simp add: call_SkipIterator[of GetCurrent] SkipIterator_call_def
            IteratorDecorator_call_simps S)
  qed
  from SkipValues_sim[OF all refl w, of toSkip skipped] obtain i3 sk3 where
    sv3: "call SkipValues ?it = Some (False, None, SkipIterator i3 toSkip sk3)"
       "wellFormed i3" "shape i3 = shape inner" "view i3 = advanced ?d (view inner)"
       "pending toSkip sk3 = 0"
    by auto
  have nxt: "\<exists>it'. call Next ?it = Some (snd (view ?it) \<noteq> [], None, it') \<and> wellFormed it' \<and>
            view it' = view_next (view ?it) \<and> shape it' = shape ?it"
  proof -
    let ?n = "after Next i3"
    have A: "snd (view ?it) = snd (view i3)"
      by (simp only: snd_view_SkipIterator sv3(4) snd_advanced)
    have n: "call Next i3 = Some (snd (view i3) \<noteq> [], None, ?n)" "wellFormed ?n"
      "view ?n = startedAt (snd (view i3))" "shape ?n = shape inner"
      using sv3(2,3) by (simp_all add: S)
    have B: "view (SkipIterator ?n toSkip sk3) = view_next (view ?it)"
      by (simp only: view_SkipIterator_done[OF sv3(5)] n(3) view_next_eq A)
    have "call Next ?it = Some (snd (view ?it) \<noteq> [], None, SkipIterator ?n toSkip sk3)"
      using sv3(1) n(1)
      by (simp only: call_SkipIterator[of Next] SkipIterator_call_def A)
         (simp add: IteratorDecorator_call_simps)
    then show ?thesis using B n(2,4) by simp
  qed
  show ?thesis unfolding Sim_def using has get nxt by blast
qed

lemma room_step:
  assumes "toNumber toTake = Num n" "t + 1 \<le> n"
  shows "room toTake (Num t) = Suc (room toTake (Num (t + 1)))"
proof -
  have "\<lfloor>n - (t + 1)\<rfloor> = \<lfloor>n - t\<rfloor> - 1"
  proof -
    have "n - (t + 1) = (n - t) - 1" by simp
    then show ?thesis by (simp only: floor_diff_one)
  qed
  moreover have "1 \<le> \<lfloor>n - t\<rfloor>" using assms(2) by (simp add: le_floor_iff)
  ultimately have "nat \<lfloor>n - t\<rfloor> = Suc (nat \<lfloor>n - (t + 1)\<rfloor>)" by linarith
  then show ?thesis using assms(1) by (simp add: room_def)
qed

lemma room_zero:
  assumes "toNumber toTake = Num n" "t \<le> n" "\<not> t + 1 \<le> n"
  shows "room toTake (Num t) = 0"
proof -
  have "\<lfloor>n - t\<rfloor> = 0" using assms(2,3) by (simp add: floor_eq_iff)
  then show ?thesis using assms(1) by (simp add: room_def)
qed

lemma Sim_TakeIterator:
  assumes all: "SimAll (shape inner)" and w: "wellFormed inner"
  shows "Sim (TakeIterator inner toTake taken)"
proof -
  note S = SimAll_simps[OF all]
  let ?it = "TakeIterator inner toTake taken"
  have has: "\<exists>it'. call HasCurrent ?it = Some (fst (view ?it) \<noteq> None, None, it') \<and> wellFormed it' \<and>
            view it' = view ?it \<and> shape it' = shape ?it"
    using w
    by (auto simp: call_TakeIterator TakeIterator_call_def IteratorDecorator_call_simps S)
  have get: "\<exists>it'. call GetCurrent ?it = Some (False, currentValue (view ?it), it') \<and> wellFormed it' \<and>
            view it' = view ?it \<and> shape it' = shape ?it"
    using w
    by (auto simp: call_TakeIterator TakeIterator_call_def IteratorDecorator_call_simps S
          currentValue_def)
  have nxt: "\<exists>it'. call Next ?it = Some (snd (view ?it) \<noteq> [], None, it') \<and> wellFormed it' \<and>
            view it' = view_next (view ?it) \<and> shape it' = shape ?it"
  proof (cases "isDefined toTake \<and> number_lessEq taken (toNumber toTake)")
    case False
    then show ?thesis using w
      by (auto simp: call_TakeIterator TakeIterator_call_def IteratorDecorator_call_simps S)
  next
    case True
    then obtain n t where nt: "toNumber toTake = Num n" "taken = Num t" "t \<le> n"
      by (auto simp: number_lessEq_def split: number.splits)
    have inc: "number_increment taken = Num (t + 1)"
      using nt by (simp add: number_increment_def)
    have can': "number_lessEq (Num (t + 1)) (toNumber toTake) \<longleftrightarrow> t + 1 \<le> n"
      using nt by (simp add: number_lessEq_def)
    show ?thesis
    proof (cases "snd (view inner)")
      case Nil
      then show ?thesis using w True inc
        by (simp add: call_TakeIterator TakeIterator_call_def IteratorDecorator_call_simps S)
    next
      case (Cons y ys)
      show ?thesis
      proof (cases "t + 1 \<le> n")
        case le: True
        then show ?thesis using w True inc can' Cons nt(2) room_step[OF nt(1) le]
          by (simp add: call_TakeIterator TakeIterator_call_def IteratorDecorator_call_simps S)
      next
        case gt: False
        then show ?thesis using w True inc can' Cons nt(2) room_zero[OF nt(1) nt(3) gt]
          by (simp add: call_TakeIterator TakeIterator_call_def IteratorDecorator_call_simps S)
      qed
    qed
  qed
  show ?thesis unfolding Sim_def using has get nxt by blast
qed

lemma Sim_MapIterator:
  assumes all: "SimAll (shape inner)" and w: "wellFormed inner"
  shows "Sim (MapIterator inner mapFunction started)"
proof -
  note S = SimAll_simps[OF all]
  let ?it = "MapIterator inner mapFunction started"
  have has: "\<exists>it'. call HasCurrent ?it = Some (fst (view ?it) \<noteq> None, None, it') \<and> wellFormed it' \<and>
            view it' = view ?it \<and> shape it' = shape ?it"
    using w by (cases mapFunction) (auto simp: call_MapIterator MapIterator_call_def S)
  have get: "\<exists>it'. call GetCurrent ?it = Some (False, currentValue (view ?it), it') \<and> wellFormed it' \<and>
            view it' = view ?it \<and> shape it' = shape ?it"
    using w
    by (cases mapFunction; cases "fst (view inner)")
       (auto simp: call_MapIterator MapIterator_call_def S currentValue_def)
  have nxt: "\<exists>it'. call Next ?it = Some (snd (view ?it) \<noteq> [], None, it') \<and> wellFormed it' \<and>
            view it' = view_next (view ?it) \<and> shape it' = shape ?it"
    using w
    by (cases mapFunction; cases "snd (view inner)")
       (auto simp: call_MapIterator MapIterator_call_def S)
  show ?thesis unfolding Sim_def using has get nxt by blast
qed

lemma Sim_ConcatenateIterator:
  assumes a1: "SimAll (shape first)" and w1: "wellFormed first"
      and a2: "SimAll (shape second)" and w2: "wellFormed second"
  shows "Sim (ConcatenateIterator first (Some second))"
proof -
  note S = SimAll_simps[OF a1] SimAll_simps[OF a2]
  let ?it = "ConcatenateIterator first (Some second)"
  have has: "\<exists>it'. call HasCurrent ?it = Some (fst (view ?it) \<noteq> None, None, it') \<and> wellFormed it' \<and>
            view it' = view ?it \<and> shape it' = shape ?it"
    using w1 w2
    by (cases "fst (view first)")
       (auto simp: call_ConcatenateIterator ConcatenateIterator_call_def callSecond_def S)
  have get: "\<exists>it'. call GetCurrent ?it = Some (False, currentValue (view ?it), it') \<and> wellFormed it' \<and>
            view it' = view ?it \<and> shape it' = shape ?it"
    using w1 w2
    by (cases "fst (view first)")
       (auto simp: call_ConcatenateIterator ConcatenateIterator_call_def callSecond_def S
          currentValue_def)
  have nxt: "\<exists>it'. call Next ?it = Some (snd (view ?it) \<noteq> [], None, it') \<and> wellFormed it' \<and>
            view it' = view_next (view ?it) \<and> shape it' = shape ?it"
    using w1 w2
    by (cases "snd (view first)"; cases "snd (view second)")
       (auto simp: call_ConcatenateIterator ConcatenateIterator_call_def callSecond_def S
          view_next_eq)
  show ?thesis unfolding Sim_def using has get nxt by blast
qed

text \<open>
  Every well-formed iterator simulates its view; in particular its methods return.
\<close>

lemma Sim_shape: "shape it' = shape it \<Longrightarrow> wellFormed it' \<Longrightarrow> Sim it'"
proof (induction it arbitrary: it')
  case (ArrayListForwardIterator l i)
  then show ?case by (cases it') (auto intro: Sim_ArrayListForwardIterator)
next
  case (ArrayListReverseIterator l i)
  then show ?case by (cases it') (auto intro: Sim_ArrayListReverseIterator)
next
  case (StringIteratorOf si)
  then show ?case by (cases it') (auto intro: Sim_StringIteratorOf)
next
  case (WhereIterator inner c)
  then show ?case by (cases it') (auto intro!: Sim_WhereIterator simp: SimAll_def)
next
  case (SkipIterator inner toSkip skipped)
  then show ?case by (cases it') (auto intro!: Sim_SkipIterator simp: SimAll_def)
next
  case (TakeIterator inner toTake taken)
  then show ?case by (cases it') (auto intro!: Sim_TakeIterator simp: SimAll_def)
next
  case (MapIterator inner f started)
  then show ?case by (cases it') (auto intro!: Sim_MapIterator simp: SimAll_def)
next
  case (ConcatenateIterator first second)
  show ?case
  proof (cases it')
    case c: (ConcatenateIterator first' second')
    with ConcatenateIterator.prems obtain s' where s': "second' = Some s'"
      by (cases second') auto
    with c ConcatenateIterator.prems obtain s where s: "second = Some s" "shape s' = shape s"
      by (cases second) auto
    have "SimAll (shape first')" "SimAll (shape s')"
      using ConcatenateIterator.IH c s s' ConcatenateIterator.prems
      by (auto simp: SimAll_def)
    then show ?thesis using c s' ConcatenateIterator.prems
      by (auto intro!: Sim_ConcatenateIterator)
  qed (use ConcatenateIterator.prems in auto)
qed

lemma Sim_wellFormed: "wellFormed it \<Longrightarrow> Sim it"
  by (rule Sim_shape[OF refl])

section \<open>toArray and getCount of an iterator\<close>

definition contents :: "'a view \<Rightarrow> 'a option list" where
  "contents v = (case fst v of None \<Rightarrow> [] | Some x \<Rightarrow> [x]) @ snd v"

lemma SimAll_any: "SimAll sh"
  unfolding SimAll_def using Sim_shape by blast

lemmas wellFormed_call = SimAll_simps[OF SimAll_any refl]

lemma wellFormed_hasCurrent:
  assumes "wellFormed it"
  shows "Iterator_hasCurrent it = Some (fst (view it) \<noteq> None, after HasCurrent it)"
  using assms by (simp add: Iterator_hasCurrent_def wellFormed_call)

lemma wellFormed_getCurrent:
  assumes "wellFormed it"
  shows "Iterator_getCurrent it = Some (currentValue (view it), after GetCurrent it)"
  using assms by (simp add: Iterator_getCurrent_def wellFormed_call)

lemma wellFormed_next:
  assumes "wellFormed it"
  shows "Iterator_next it = Some (snd (view it) \<noteq> [], after Next it)"
  using assms by (simp add: Iterator_next_def wellFormed_call)

lemmas wellFormed_after = wellFormed_call(2-4) wellFormed_call(6-8) wellFormed_call(10-12)

lemma foreach_loop_view:
  "wellFormed it \<Longrightarrow> \<exists>it'. IteratorBase_foreach_loop it acc = Some (acc @ snd (view it), it')
      \<and> wellFormed it' \<and> view it' = (None, []) \<and> shape it' = shape it"
proof (induction "snd (view it)" arbitrary: it acc)
  case Nil
  then show ?case
    by (subst IteratorBase_foreach_loop.simps) (simp add: wellFormed_next wellFormed_after)
next
  case (Cons y ys)
  let ?i1 = "after Next it"
  let ?i2 = "after GetCurrent ?i1"
  have i1: "wellFormed ?i1" "view ?i1 = (Some y, ys)" "shape ?i1 = shape it"
    using Cons.prems Cons.hyps(2)[symmetric] by (simp_all add: wellFormed_after)
  have i2: "wellFormed ?i2" "view ?i2 = (Some y, ys)" "shape ?i2 = shape it"
    using i1 by (simp_all add: wellFormed_after)
  from Cons.hyps(1)[of ?i2 "acc @ [y]"] i2 obtain it' where
    r: "IteratorBase_foreach_loop ?i2 (acc @ [y]) = Some ((acc @ [y]) @ ys, it')"
       "wellFormed it'" "view it' = (None, [])" "shape it' = shape it"
    by auto
  have "IteratorBase_foreach_loop it acc = IteratorBase_foreach_loop ?i2 (acc @ [y])"
    using Cons.prems Cons.hyps(2)[symmetric] i1
    by (subst IteratorBase_foreach_loop.simps)
       (simp add: wellFormed_next wellFormed_getCurrent currentValue_def)
  then show ?case using r Cons.hyps(2)[symmetric] by simp
qed

lemma IteratorBase_toArray_view:
  assumes "wellFormed it"
  shows "\<exists>it'. IteratorBase_toArray it = Some (contents (view it), it')
      \<and> wellFormed it' \<and> view it' = (None, []) \<and> shape it' = shape it"
proof -
  let ?i1 = "after HasCurrent it"
  let ?i2 = "after GetCurrent ?i1"
  have i1: "wellFormed ?i1" "view ?i1 = view it" "shape ?i1 = shape it"
    using assms by (simp_all add: wellFormed_after)
  have i2: "wellFormed ?i2" "view ?i2 = view it" "shape ?i2 = shape it"
    using i1 by (simp_all add: wellFormed_after)
  show ?thesis
  proof (cases "fst (view it)")
    case None
    then show ?thesis
      using assms i1 foreach_loop_view[OF i1(1), of "[]"]
      by (simp add: IteratorBase_toArray_def wellFormed_hasCurrent contents_def)
  next
    case (Some v)
    then show ?thesis
      using assms i1 i2 foreach_loop_view[OF i2(1), of "[v]"]
      by (simp add: IteratorBase_toArray_def wellFormed_hasCurrent wellFormed_getCurrent contents_def
            currentValue_def)
  qed
qed

lemma contents_map:
  "contents (map_option f (fst v), map f (snd v)) = map f (contents v)"
  by (cases "fst v") (simp_all add: contents_def)

lemma Iterator_toArray_view:
  "wellFormed it \<Longrightarrow> \<exists>it'. Iterator_toArray it = Some (contents (view it), it')
      \<and> wellFormed it' \<and> view it' = (None, []) \<and> shape it' = shape it"
proof (induction it rule: Iterator_toArray.induct)
  case (1 inner mapFunction started)
  show ?case
  proof (cases mapFunction)
    case None
    then show ?thesis using 1 by (simp add: contents_def)
  next
    case (Some f)
    from 1 Some obtain inner' where
      "Iterator_toArray inner = Some (contents (view inner), inner')"
      "wellFormed inner'" "view inner' = (None, [])" "shape inner' = shape inner"
      by auto
    then show ?thesis using Some by (simp add: contents_map)
  qed
qed (simp_all add: IteratorBase_toArray_view del: view.simps wellFormed.simps shape.simps)

lemma getCount_loop_view:
  "wellFormed it \<Longrightarrow> \<exists>it'. IteratorBase_getCount_loop it k
        = Some (k + int (length (snd (view it))), it')
      \<and> wellFormed it' \<and> view it' = (None, []) \<and> shape it' = shape it"
proof (induction "snd (view it)" arbitrary: it k)
  case Nil
  then show ?case
    by (subst IteratorBase_getCount_loop.simps) (simp add: wellFormed_next wellFormed_after)
next
  case (Cons y ys)
  let ?i1 = "after Next it"
  have i1: "wellFormed ?i1" "view ?i1 = (Some y, ys)" "shape ?i1 = shape it"
    using Cons.prems Cons.hyps(2)[symmetric] by (simp_all add: wellFormed_after)
  from Cons.hyps(1)[of ?i1 "k + 1"] i1 obtain it' where
    r: "IteratorBase_getCount_loop ?i1 (k + 1) = Some (k + 1 + int (length ys), it')"
       "wellFormed it'" "view it' = (None, [])" "shape it' = shape it"
    by auto
  have "IteratorBase_getCount_loop it k = IteratorBase_getCount_loop ?i1 (k + 1)"
    using Cons.prems Cons.hyps(2)[symmetric]
    by (subst IteratorBase_getCount_loop.simps) (simp add: wellFormed_next)
  then show ?case using r Cons.hyps(2)[symmetric] by simp
qed

lemma IteratorBase_getCount_view:
  assumes "wellFormed it"
  shows "\<exists>it'. IteratorBase_getCount it = Some (int (length (contents (view it))), it')
      \<and> wellFormed it' \<and> view it' = (None, []) \<and> shape it' = shape it"
proof -
  let ?i1 = "after HasCurrent it"
  have i1: "wellFormed ?i1" "view ?i1 = view it" "shape ?i1 = shape it"
    using assms by (simp_all add: wellFormed_after)
  show ?thesis
    using assms i1 getCount_loop_view[OF i1(1), of "if fst (view it) \<noteq> None then 1 else 0"]
    by (cases "fst (view it)")
       (auto simp: IteratorBase_getCount_def wellFormed_hasCurrent contents_def)
qed

lemma Iterator_getCount_view:
  "wellFormed it \<Longrightarrow> \<exists>it'. Iterator_getCount it = Some (int (length (contents (view it))), it')
      \<and> wellFormed it' \<and> view it' = (None, []) \<and> shape it' = shape it"
proof (induction it rule: Iterator_getCount.induct)
  case (1 inner mapFunction started)
  show ?case
  proof (cases mapFunction)
    case None
    then show ?thesis using 1 by (simp add: contents_def)
  next
    case (Some f)
    from 1 Some obtain inner' where
      "Iterator_getCount inner = Some (int (length (contents (view inner))), inner')"
      "wellFormed inner'" "view inner' = (None, [])" "shape inner' = shape inner"
      by auto
    then show ?thesis using Some by (simp add: contents_map)
  qed
qed (simp_all add: IteratorBase_getCount_view del: view.simps wellFormed.simps shape.simps)

section \<open>The iterators that where, skip, take, map and concatenate build\<close>

lemma Iterator_where_fresh:
  assumes "wellFormed it" "fst (view it) = None"
  shows "\<exists>w. Iterator_where it (Some p) = Some w \<and> wellFormed w
            \<and> view w = (None, filter p (snd (view it)))"
proof -
  let ?w = "WhereIterator it (Some p)"
  have w: "wellFormed ?w" "view ?w = (None, filter p (snd (view it)))"
    using assms by simp_all
  have "Iterator_where it (Some p) = Some (after HasCurrent ?w)"
    using w
    by (simp add: Iterator_where_def WhereIterator_new_def wellFormed_hasCurrent
          del: view.simps wellFormed.simps)
       (subst WhereIterator_new_loop.simps, simp add: wellFormed_hasCurrent del: view.simps wellFormed.simps)
  then show ?thesis using w by (simp add: wellFormed_after del: view.simps wellFormed.simps)
qed

lemma Iterator_skip_view:
  assumes "wellFormed it"
  shows "\<exists>w. Iterator_skip it toSkip = Some w \<and> wellFormed w
            \<and> view w = view (SkipIterator it toSkip (ofInt 0))"
  using assms by (simp add: Iterator_skip_def SkipIterator_new_def)

definition skips :: "number \<Rightarrow> nat" where
  "skips n = pending (Some n) (ofInt 0)"

definition takes :: "number \<Rightarrow> nat" where
  "takes n = (if number_lessEq (ofInt 0) n then room (Some n) (ofInt 0) else 0)"

lemma Iterator_skip_fresh:
  assumes "wellFormed it" "fst (view it) = None"
  shows "\<exists>w. Iterator_skip it (Some n) = Some w \<and> wellFormed w
            \<and> view w = (None, drop (skips n) (snd (view it)))"
  using assms by (simp add: Iterator_skip_def SkipIterator_new_def skips_def)

lemma Iterator_take_fresh:
  assumes "wellFormed it" "fst (view it) = None"
  shows "\<exists>w. Iterator_take it (Some n) = Some w \<and> wellFormed w
            \<and> view w = (None, take (takes n) (snd (view it)))"
  using assms
  by (simp add: Iterator_take_def TakeIterator_new_def wellFormed_hasCurrent wellFormed_after
        takes_def isDefined_def toNumber_def)

lemma Iterator_map_view:
  assumes "wellFormed it"
  shows "\<exists>w. Iterator_map it (Some f) = Some w \<and> wellFormed w
            \<and> view w = (map_option f (fst (view it)), map f (snd (view it)))"
  using assms by (simp add: Iterator_map_def MapIterator_new_def)

lemma Iterator_concatenate_view:
  assumes "wellFormed it" "wellFormed c"
  shows "\<exists>w. Iterator_concatenate it (Some c) = Some w \<and> wellFormed w
            \<and> view w = view (ConcatenateIterator it (Some c))"
  using assms by (cases it) simp_all

section \<open>The values of an iterable\<close>

text \<open>
  Iterating an iterable forwards yields \<open>elems\<close>, \<open>getCount\<close> returns \<open>counts\<close>, and
  iterating it in reverse yields \<open>relems\<close>: \<open>skip(n)\<close> skips \<open>n\<close> values rounded up and
  \<open>take(n)\<close> takes \<open>n\<close> values rounded down, while \<open>getCount\<close> computes with \<open>n\<close> itself.
  An iterable has integer counts (\<open>wfI\<close>) when every count given to \<open>skip\<close> and \<open>take\<close> to
  build it was an integer; \<open>skip\<close> and \<open>take\<close> construct a \<open>SkipIterable\<close> and a
  \<open>TakeIterable\<close> for a count greater than 0 only. With integer counts, \<open>getCount\<close>
  returns the number of values and the reverse iteration yields the values in reverse
  order.
\<close>

fun elems :: "'a Iterable \<Rightarrow> 'a option list" where
  "elems (ArrayList l) = l"
| "elems (StringIterable txt) = map Some txt"
| "elems (WhereIterable x p) = filter p (elems x)"
| "elems (SkipIterable x n) = drop (skips n) (elems x)"
| "elems (TakeIterable x n) = take (takes n) (elems x)"
| "elems (MapIterable x f) = map f (elems x)"
| "elems (ConcatenateIterable x ys) = elems x @ ys"

fun counts :: "'a Iterable \<Rightarrow> number" where
  "counts (SkipIterable x n) =
     (if number_lessEq (counts x) n then ofInt 0 else number_minus (counts x) n)"
| "counts (TakeIterable x n) = (if number_less n (counts x) then n else counts x)"
| "counts (MapIterable x f) = counts x"
| "counts x = ofInt (int (length (elems x)))"

fun relems :: "'a Iterable \<Rightarrow> 'a option list" where
  "relems (ArrayList l) = rev l"
| "relems (StringIterable txt) = rev (map Some txt)"
| "relems (WhereIterable x p) = filter p (relems x)"
| "relems (SkipIterable x n) = take (takes (counts (SkipIterable x n))) (relems x)"
| "relems (TakeIterable x n) = drop (skips (number_minus (counts x) n)) (relems x)"
| "relems (MapIterable x f) = map f (relems x)"
| "relems (ConcatenateIterable x ys) = rev ys @ relems x"

definition isCount :: "number \<Rightarrow> bool" where
  "isCount n = (case n of Num q \<Rightarrow> 0 < q \<and> of_int \<lfloor>q\<rfloor> = q | NaN \<Rightarrow> False)"

fun wfI :: "'a Iterable \<Rightarrow> bool" where
  "wfI (ArrayList l) = True"
| "wfI (StringIterable txt) = True"
| "wfI (WhereIterable x p) = wfI x"
| "wfI (SkipIterable x n) = (isCount n \<and> wfI x)"
| "wfI (TakeIterable x n) = (isCount n \<and> wfI x)"
| "wfI (MapIterable x f) = wfI x"
| "wfI (ConcatenateIterable x ys) = wfI x"

lemma ofInt_simps:
  "number_lessEq (ofInt a) (ofInt b) = (a \<le> b)"
  "number_less (ofInt a) (ofInt b) = (a < b)"
  "number_minus (ofInt a) (ofInt b) = ofInt (a - b)"
  "number_increment (ofInt a) = ofInt (a + 1)"
  "(ofInt a = ofInt b) = (a = b)"
  "toNumber (Some (ofInt a)) = ofInt a"
  "truthy (Some (ofInt a)) = (a \<noteq> 0)"
  by (simp_all add: number_lessEq_def number_less_def number_minus_def number_increment_def
        ofInt_def toNumber_def truthy_def)

lemma skips_ofInt: "skips (ofInt k) = nat k"
  by (simp add: skips_def pending_def ofInt_def toNumber_def)

lemma takes_ofInt: "takes (ofInt k) = nat k"
  by (simp add: takes_def room_def ofInt_def toNumber_def number_lessEq_def)

lemma isCount_ofInt: "isCount n \<longleftrightarrow> (\<exists>k. 0 < k \<and> n = ofInt k)"
proof
  assume "isCount n"
  then obtain q where q: "n = Num q" "0 < q" "of_int \<lfloor>q\<rfloor> = q"
    by (cases n) (simp_all add: isCount_def)
  then have "0 < \<lfloor>q\<rfloor>" by (metis of_int_0_less_iff)
  then show "\<exists>k. 0 < k \<and> n = ofInt k" using q unfolding ofInt_def by metis
next
  assume "\<exists>k. 0 < k \<and> n = ofInt k"
  then show "isCount n" by (auto simp: isCount_def ofInt_def)
qed

lemma map_index_upto: "map (index txt) [0..int (length txt) - 1] = map Some txt"
  by (rule nth_equalityI) (simp_all add: index_def)

lemma StringIterable_iterate_values:
  "StringIterator_values (StringIterator_new txt (Some 0) (Some (getLength txt)))
     = map Some txt"
  by (simp add: StringIterator_values_def StringIterator_new_def StringIterator_step_def
        getLength_def map_index_upto Let_def)

lemma StringIterable_iterateReverse_values:
  "StringIterator_values (StringIterator_new txt (Some (getLength txt - 1)) (Some (- 1)))
     = rev (map Some txt)"
  by (cases "txt = []")
     (simp_all add: StringIterator_values_def StringIterator_new_def StringIterator_step_def
        getLength_def map_index_upto rev_map[symmetric] Let_def)

lemma iterate_view: "\<exists>it. iterate x = Some it \<and> wellFormed it \<and> view it = (None, elems x)"
proof (induction x)
  case (ArrayList l)
  show ?case by simp
next
  case (StringIterable str)
  show ?case
    by (simp add: StringIterable_iterate_values) (simp add: StringIterator_new_def Let_def)
next
  case (WhereIterable x p)
  then obtain it where "iterate x = Some it" "wellFormed it" "view it = (None, elems x)" by auto
  then show ?case using Iterator_where_fresh[of it p] by auto
next
  case (SkipIterable x n)
  then obtain it where "iterate x = Some it" "wellFormed it" "view it = (None, elems x)" by auto
  then show ?case using Iterator_skip_fresh[of it n] by auto
next
  case (TakeIterable x n)
  then obtain it where "iterate x = Some it" "wellFormed it" "view it = (None, elems x)" by auto
  then show ?case using Iterator_take_fresh[of it n] by auto
next
  case (MapIterable x f)
  then obtain it where "iterate x = Some it" "wellFormed it" "view it = (None, elems x)" by auto
  then show ?case using Iterator_map_view[of it f] by auto
next
  case (ConcatenateIterable x ys)
  then obtain it where "iterate x = Some it" "wellFormed it" "view it = (None, elems x)" by auto
  then show ?case
    using Iterator_concatenate_view[of it "ArrayListForwardIterator ys None"] by auto
qed

lemma Iterable_toArray_elems: "Iterable_toArray x = Some (elems x)"
proof -
  obtain it where it: "iterate x = Some it" "wellFormed it" "view it = (None, elems x)"
    using iterate_view by blast
  from Iterator_toArray_view[OF it(2)] obtain it' where
    "Iterator_toArray it = Some (contents (view it), it')" by blast
  then show ?thesis using it by (simp add: Iterable_toArray_def contents_def)
qed

lemma IterableBase_getCount_elems:
  "IterableBase_getCount x = Some (ofInt (int (length (elems x))))"
proof -
  obtain it where it: "iterate x = Some it" "wellFormed it" "view it = (None, elems x)"
    using iterate_view by blast
  from Iterator_getCount_view[OF it(2)] obtain it' where
    "Iterator_getCount it = Some (int (length (contents (view it))), it')" by blast
  then show ?thesis using it by (simp add: IterableBase_getCount_def contents_def)
qed

lemma getCount_counts: "getCount x = Some (counts x)"
proof (induction x)
  case (ArrayList l)
  show ?case by (simp add: ArrayList_getCount_def)
next
  case (StringIterable str)
  show ?case using IterableBase_getCount_elems[of "StringIterable str"] by simp
next
  case (WhereIterable x p)
  show ?case using IterableBase_getCount_elems[of "WhereIterable x p"] by simp
next
  case (SkipIterable x n)
  then show ?case by simp
next
  case (TakeIterable x n)
  then show ?case by simp
next
  case (MapIterable x f)
  then show ?case by simp
next
  case (ConcatenateIterable x ys)
  show ?case using IterableBase_getCount_elems[of "ConcatenateIterable x ys"] by simp
qed

lemma iterateReverse_view:
  "\<exists>it. iterateReverse x = Some it \<and> wellFormed it \<and> view it = (None, relems x)"
proof (induction x)
  case (ArrayList l)
  show ?case by simp
next
  case (StringIterable str)
  show ?case
    by (simp add: StringIterable_iterateReverse_values)
       (simp add: StringIterator_new_def Let_def)
next
  case (WhereIterable x p)
  then obtain it where "iterateReverse x = Some it" "wellFormed it" "view it = (None, relems x)"
    by auto
  then show ?case using Iterator_where_fresh[of it p] by auto
next
  case (SkipIterable x n)
  then obtain it where it: "iterateReverse x = Some it" "wellFormed it"
      "view it = (None, relems x)"
    by auto
  show ?case
    using it getCount_counts[of "SkipIterable x n"]
      Iterator_take_fresh[of it "counts (SkipIterable x n)"]
    by (auto simp del: counts.simps getCount.simps)
next
  case (TakeIterable x n)
  then obtain it where it: "iterateReverse x = Some it" "wellFormed it"
      "view it = (None, relems x)"
    by auto
  show ?case
    using it getCount_counts[of x] Iterator_skip_fresh[of it "number_minus (counts x) n"]
    by auto
next
  case (MapIterable x f)
  then obtain it where "iterateReverse x = Some it" "wellFormed it" "view it = (None, relems x)"
    by auto
  then show ?case using Iterator_map_view[of it f] by auto
next
  case (ConcatenateIterable x ys)
  then obtain it where "iterateReverse x = Some it" "wellFormed it" "view it = (None, relems x)"
    by auto
  then show ?case
    using Iterator_concatenate_view[of "ArrayListReverseIterator ys None" it] by auto
qed

lemma counts_wfI: "wfI x \<Longrightarrow> counts x = ofInt (int (length (elems x)))"
proof (induction x)
  case (SkipIterable x n)
  then obtain k where "0 < k" "n = ofInt k" by (auto simp: isCount_ofInt)
  then show ?case using SkipIterable by (auto simp: ofInt_simps skips_ofInt)
next
  case (TakeIterable x n)
  then obtain k where "0 < k" "n = ofInt k" by (auto simp: isCount_ofInt)
  then show ?case using TakeIterable by (auto simp: ofInt_simps takes_ofInt)
qed simp_all

lemma getCount_elems: "wfI x \<Longrightarrow> getCount x = Some (ofInt (int (length (elems x))))"
  by (simp add: getCount_counts counts_wfI)

lemma relems_wfI: "wfI x \<Longrightarrow> relems x = rev (elems x)"
proof (induction x)
  case (SkipIterable x n)
  then obtain k where k: "0 < k" "n = ofInt k" by (auto simp: isCount_ofInt)
  have c: "counts (SkipIterable x n)
             = ofInt (int (length (elems x)) - k) \<or> counts (SkipIterable x n) = ofInt 0
               \<and> int (length (elems x)) \<le> k"
    using SkipIterable.prems k by (auto simp: counts_wfI ofInt_simps)
  have "take (takes (counts (SkipIterable x n))) (rev (elems x)) = rev (drop (nat k) (elems x))"
    using c k(1) by (auto simp: takes_ofInt rev_drop nat_diff_distrib' simp del: counts.simps)
  then show ?case using SkipIterable k by (simp add: skips_ofInt del: counts.simps)
next
  case (TakeIterable x n)
  then obtain k where k: "0 < k" "n = ofInt k" by (auto simp: isCount_ofInt)
  have "drop (nat (int (length (elems x)) - k)) (rev (elems x)) = rev (take (nat k) (elems x))"
    using k(1) by (auto simp: rev_take nat_diff_distrib')
  then show ?case
    using TakeIterable k by (simp add: counts_wfI ofInt_simps skips_ofInt takes_ofInt)
qed (simp_all add: rev_filter rev_map)

section \<open>Sequences of calls\<close>

text \<open>
  A sequence of calls of the three methods of the interface, and the answers an iterator
  gives to it; the values \<open>iterateReverse()\<close> produces; and the values
  \<open>x.iterateReverse().skip(x.getCount() - n)\<close> produces. An iterator is fresh when none of
  the array-list iterators and string cursors under it has been advanced.
\<close>

datatype query = QueryHasCurrent | QueryNext | QueryGetCurrent

fun methodOf :: "query \<Rightarrow> methodName" where
  "methodOf QueryHasCurrent = HasCurrent"
| "methodOf QueryNext = Next"
| "methodOf QueryGetCurrent = GetCurrent"

fun observe :: "query list \<Rightarrow> 'a Iterator \<Rightarrow> (bool \<times> 'a option) list option" where
  "observe [] it = Some []"
| "observe (q # qs) it = do {
     (b, v, it') \<leftarrow> call (methodOf q) it;
     answers \<leftarrow> observe qs it';
     Some ((b, v) # answers) }"

definition reverseSequence :: "'a Iterable \<Rightarrow> 'a option list option" where
  "reverseSequence x = do {
     it \<leftarrow> iterateReverse x;
     (values, it') \<leftarrow> Iterator_toArray it;
     Some values }"

definition reverseThenSkip :: "'a Iterable \<Rightarrow> number \<Rightarrow> 'a option list option" where
  "reverseThenSkip x n = do {
     it \<leftarrow> iterateReverse x;
     count \<leftarrow> getCount x;
     skipped \<leftarrow> Iterator_skip it (Some (number_minus count n));
     (values, it') \<leftarrow> Iterator_toArray skipped;
     Some values }"

fun fresh :: "'a Iterator \<Rightarrow> bool" where
  "fresh (ArrayListForwardIterator l i) = (i = None)"
| "fresh (ArrayListReverseIterator l i) = (i = None)"
| "fresh (StringIteratorOf si) = (\<not> it_started si)"
| "fresh (WhereIterator inner c) = fresh inner"
| "fresh (SkipIterator inner toSkip skipped) = fresh inner"
| "fresh (TakeIterator inner toTake taken) = fresh inner"
| "fresh (MapIterator inner mapFunction started) = fresh inner"
| "fresh (ConcatenateIterator first second) =
     (fresh first \<and> (case second of None \<Rightarrow> True | Some s \<Rightarrow> fresh s))"

fun agree :: "'a list \<Rightarrow> 'a list \<Rightarrow> bool" where
  "agree (a # as) (c # cs) = (a = c \<and> agree as cs)"
| "agree as cs = True"

fun observe_view :: "query list \<Rightarrow> 'a view \<Rightarrow> (bool \<times> 'a option) list" where
  "observe_view [] v = []"
| "observe_view (QueryHasCurrent # qs) v = (fst v \<noteq> None, None) # observe_view qs v"
| "observe_view (QueryGetCurrent # qs) v = (False, currentValue v) # observe_view qs v"
| "observe_view (QueryNext # qs) v = (snd v \<noteq> [], None) # observe_view qs (view_next v)"

lemma observe_wellFormed: "wellFormed it \<Longrightarrow> observe qs it = Some (observe_view qs (view it))"
proof (induction qs arbitrary: it)
  case Nil
  show ?case by simp
next
  case (Cons q qs)
  show ?case
  proof (cases q)
    case QueryHasCurrent
    then show ?thesis
      using Cons.prems Cons.IH[of "after HasCurrent it"] by (simp add: wellFormed_call)
  next
    case QueryNext
    then show ?thesis
      using Cons.prems Cons.IH[of "after Next it"] by (simp add: wellFormed_call view_next_eq)
  next
    case QueryGetCurrent
    then show ?thesis
      using Cons.prems Cons.IH[of "after GetCurrent it"] by (simp add: wellFormed_call)
  qed
qed

lemma observe_view_empty: "observe_view qs (None, []) = map (\<lambda>q. (False, None)) qs"
proof (induction qs)
  case Nil
  show ?case by simp
next
  case (Cons q qs)
  then show ?case by (cases q) (simp_all add: currentValue_def)
qed

lemma fresh_view: "fresh it \<Longrightarrow> wellFormed it \<Longrightarrow> fst (view it) = None"
  by (induction it) (auto split: option.splits)

lemma agree_same_length: "length as = length cs \<Longrightarrow> agree as cs \<longleftrightarrow> as = cs"
  by (induction as cs rule: agree.induct) simp_all

lemma endsWith_loop_view:
  "wellFormed a \<Longrightarrow> wellFormed c \<Longrightarrow> endsWith_loop a c = Some (agree (snd (view a)) (snd (view c)))"
proof (induction "snd (view a)" arbitrary: a c)
  case Nil
  then show ?case
    by (subst endsWith_loop.simps)
       (auto simp: wellFormed_next wellFormed_hasCurrent wellFormed_after Nil.hyps[symmetric])
next
  case (Cons y ys)
  let ?a1 = "after Next a"
  let ?c1 = "after Next c"
  let ?a2 = "after HasCurrent ?a1"
  let ?a3 = "after GetCurrent ?a2"
  let ?c2 = "after GetCurrent ?c1"
  have a1: "wellFormed ?a1" "view ?a1 = (Some y, ys)"
    using Cons.prems Cons.hyps(2)[symmetric] by (simp_all add: wellFormed_after)
  have a2: "wellFormed ?a2" "view ?a2 = (Some y, ys)" using a1 by (simp_all add: wellFormed_after)
  have a3: "wellFormed ?a3" "view ?a3 = (Some y, ys)" using a2 by (simp_all add: wellFormed_after)
  have c1: "wellFormed ?c1" "view ?c1 = startedAt (snd (view c))"
    using Cons.prems by (simp_all add: wellFormed_after)
  have c2: "wellFormed ?c2" "view ?c2 = startedAt (snd (view c))" using c1 by (simp_all add: wellFormed_after)
  note ya = Cons.hyps(2)[symmetric]
  show ?case
  proof (cases "snd (view c)")
    case Nil
    then show ?thesis using Cons.prems ya
      by (subst endsWith_loop.simps) (simp add: wellFormed_next)
  next
    case (Cons z zs)
    have "endsWith_loop a c = (if y \<noteq> z then Some False else endsWith_loop ?a3 ?c2)"
      using Cons.prems ya Cons a1 a2 c1
      by (subst endsWith_loop.simps)
         (simp add: wellFormed_next wellFormed_hasCurrent wellFormed_getCurrent currentValue_def)
    moreover have "endsWith_loop ?a3 ?c2 = Some (agree ys zs)"
      using Cons.hyps(1)[of ?a3 ?c2] a3 c2 Cons by simp
    ultimately show ?thesis using Cons ya by simp
  qed
qed

lemma wfI_api:
  "wfI x \<Longrightarrow> wfI (Iterable_where x c)"
  "wfI x \<Longrightarrow> wfI (Iterable_skip x None)"
  "wfI x \<Longrightarrow> wfI (Iterable_skip x (Some (ofInt k)))"
  "wfI x \<Longrightarrow> wfI (Iterable_take x None)"
  "wfI x \<Longrightarrow> wfI (Iterable_take x (Some (ofInt k)))"
  "wfI x \<Longrightarrow> wfI (Iterable_map x f)"
  by (auto simp: Iterable_where_def Iterable_skip_def Iterable_take_def Iterable_map_def
        isCount_ofInt ofInt_simps truthy_def split: option.splits)

lemma wfI_concatenate: "wfI x \<Longrightarrow> Iterable_concatenate x y = Some c \<Longrightarrow> wfI c"
  by (auto simp: Iterable_concatenate_def ConcatenateIterable_new_def
        split: option.splits Option.bind_splits)

lemma wfI_last:
  "wfI x \<Longrightarrow> Iterable_skipLast x (Some (ofInt k)) = Some c \<Longrightarrow> wfI c"
  "wfI x \<Longrightarrow> Iterable_takeLast x (Some (ofInt k)) = Some c \<Longrightarrow> wfI c"
  by (auto simp: Iterable_skipLast_def Iterable_takeLast_def Iterable_skip_def
        Iterable_take_def getCount_elems isCount_ofInt ofInt_simps
        split: option.splits if_splits Option.bind_splits)

lemma reverseSequence_relems: "reverseSequence x = Some (relems x)"
proof -
  obtain it where it: "iterateReverse x = Some it" "wellFormed it"
      "view it = (None, relems x)"
    using iterateReverse_view by blast
  from Iterator_toArray_view[OF it(2)] obtain it' where
    "Iterator_toArray it = Some (contents (view it), it')" by blast
  then show ?thesis using it by (simp add: reverseSequence_def contents_def)
qed

lemma reverseSequence_elems: "wfI x \<Longrightarrow> reverseSequence x = Some (rev (elems x))"
  by (simp add: reverseSequence_relems relems_wfI)

lemma reverseThenSkip_relems:
  "reverseThenSkip x n = Some (drop (skips (number_minus (counts x) n)) (relems x))"
proof -
  obtain it where it: "iterateReverse x = Some it" "wellFormed it"
      "view it = (None, relems x)"
    using iterateReverse_view by blast
  obtain w where w: "Iterator_skip it (Some (number_minus (counts x) n)) = Some w"
      "wellFormed w" "view w = (None, drop (skips (number_minus (counts x) n)) (relems x))"
    using Iterator_skip_fresh[OF it(2), of "number_minus (counts x) n"] it(3) by auto
  from Iterator_toArray_view[OF w(2)] obtain w' where
    "Iterator_toArray w = Some (contents (view w), w')" by blast
  then show ?thesis
    using it w by (simp add: reverseThenSkip_def getCount_counts contents_def)
qed

lemma observe_same_view:
  "wellFormed w \<Longrightarrow> wellFormed it \<Longrightarrow> view w = view it \<Longrightarrow> observe qs w = observe qs it"
  by (simp add: observe_wellFormed)

lemma observe_empty_view:
  "wellFormed w \<Longrightarrow> view w = (None, []) \<Longrightarrow> observe qs w = Some (map (\<lambda>q. (False, None)) qs)"
  by (simp add: observe_wellFormed observe_view_empty)

lemma Iterator_take_empty:
  assumes "wellFormed it" and "toTake = None \<or> toTake = Some (ofInt 0)"
  shows "\<exists>w. Iterator_take it toTake = Some w \<and> wellFormed w \<and> view w = (None, [])"
  using assms
  by (auto simp: Iterator_take_def TakeIterator_new_def wellFormed_hasCurrent wellFormed_after
        isDefined_def ofInt_simps room_def ofInt_def toNumber_def number_lessEq_def)

section \<open>Claims about iterators and iterables\<close>

text \<open>
  The examples with counts that are not integers: the first three values of an array
  list, of which \<open>take(1.5)\<close> then \<open>skip(0.5)\<close> are asked, and the same with a condition
  that every value satisfies.
\<close>

definition halves :: "int Iterable" where
  "halves = Iterable_skip (Iterable_take (ArrayList [Some 1, Some 2, Some 3]) (Some (Num (3 / 2))))
              (Some (Num (1 / 2)))"

definition halvesWhere :: "int Iterable" where
  "halvesWhere = Iterable_where halves (Some (\<lambda>v. True))"

lemmas number_eval = skips_def takes_def pending_def room_def number_less_def
  number_lessEq_def number_minus_def number_increment_def ofInt_def toNumber_def truthy_def
  isDefined_def

lemma halves_rounding:
  "\<lfloor>3 / 2 :: rat\<rfloor> = 1" "\<lceil>3 / 2 :: rat\<rceil> = 2"
  "\<lfloor>1 / 2 :: rat\<rfloor> = 0" "\<lceil>1 / 2 :: rat\<rceil> = 1"
  by (simp_all add: floor_eq_iff ceiling_eq_iff)

lemma halves_is:
  "halves = SkipIterable (TakeIterable (ArrayList [Some 1, Some 2, Some 3]) (Num (3 / 2)))
              (Num (1 / 2))"
  by (simp add: halves_def Iterable_skip_def Iterable_take_def number_eval)

lemma halves_values:
  "elems halves = []" "relems halves = [Some 1]" "counts halves = Num 1"
  by (simp_all add: halves_is number_eval halves_rounding)

text \<open>
  C8. For every iterable \<open>x\<close> and every integer \<open>n \<ge> 0\<close>, \<open>x.toArray()\<close> and
  \<open>x.skip(n).toArray()\<close> both return, and the second is the first without its \<open>n\<close> first
  elements; it is empty when \<open>n\<close> is at least the length of \<open>x\<close>.
\<close>

theorem skip_toArray:
  assumes "0 \<le> n"
  shows "\<exists>xs. Iterable_toArray x = Some xs
           \<and> Iterable_toArray (Iterable_skip x (Some (ofInt n))) = Some (drop (nat n) xs)
           \<and> (int (length xs) \<le> n \<longrightarrow>
                Iterable_toArray (Iterable_skip x (Some (ofInt n))) = Some [])"
proof -
  have "Iterable_toArray (Iterable_skip x (Some (ofInt n))) = Some (drop (nat n) (elems x))"
    using assms
    by (cases "n = 0")
       (simp_all add: Iterable_skip_def Iterable_toArray_elems ofInt_simps skips_ofInt)
  then show ?thesis using assms by (auto simp: Iterable_toArray_elems)
qed

theorem skip_toArray_witness:
  "Iterable_toArray (Iterable_skip (ArrayList [Some (1::int), Some 2, Some 3]) (Some (ofInt 2)))
     = Some [Some 3]
   \<and> Iterable_toArray (Iterable_skip (ArrayList [Some (1::int), Some 2, Some 3]) (Some (ofInt 3)))
     = Some []"
  using skip_toArray[of 2 "ArrayList [Some (1::int), Some 2, Some 3]"]
        skip_toArray[of 3 "ArrayList [Some (1::int), Some 2, Some 3]"]
  by (simp add: Iterable_toArray_elems)

text \<open>
  C9, as the code has it. For all iterables \<open>x\<close> and \<open>y\<close>, \<open>x.concatenate(y)\<close> is built and
  its \<open>toArray()\<close> is \<open>x.toArray()\<close> followed by \<open>y.toArray()\<close>; the values
  \<open>x.concatenate(y).iterateReverse()\<close> produces are those of \<open>y.toArray()\<close> in reverse order
  followed by the values \<open>x.iterateReverse()\<close> produces; and these are the values of \<open>x\<close>
  in reverse order when \<open>x\<close> has integer counts.
\<close>

theorem concatenate_toArray:
  "\<exists>xs ys rs c. Iterable_toArray x = Some xs \<and> Iterable_toArray y = Some ys
     \<and> reverseSequence x = Some rs
     \<and> Iterable_concatenate x (Some y) = Some c
     \<and> Iterable_toArray c = Some (xs @ ys)
     \<and> reverseSequence c = Some (rev ys @ rs)
     \<and> (wfI x \<longrightarrow> rs = rev xs)"
proof -
  let ?c = "ConcatenateIterable x (elems y)"
  have "Iterable_concatenate x (Some y) = Some ?c"
    by (simp add: Iterable_concatenate_def ConcatenateIterable_new_def Iterable_toArray_elems)
  then show ?thesis
    by (simp add: Iterable_toArray_elems reverseSequence_relems relems_wfI)
qed

theorem concatenate_toArray_witness:
  "\<exists>c. Iterable_concatenate (ArrayList [Some (1::int), Some 2]) (Some (ArrayList [Some 3, Some 4]))
          = Some c
     \<and> Iterable_toArray c = Some [Some 1, Some 2, Some 3, Some 4]
     \<and> reverseSequence c = Some [Some 4, Some 3, Some 2, Some 1]"
  using concatenate_toArray[of "ArrayList [Some (1::int), Some 2]" "ArrayList [Some 3, Some 4]"]
  by (auto simp: Iterable_toArray_elems reverseSequence_relems)

text \<open>
  C9 as stated, for all iterables, fails for an \<open>x\<close> whose counts are not integers. The
  iterable \<open>new ArrayList([1, 2, 3]).take(1.5).skip(0.5)\<close> has no values, yet its reverse
  iteration yields 1; concatenated with the array list of 4, its reverse iteration yields
  4 and 1, and not the values of the concatenation, which is 4 alone, in reverse order.
\<close>

theorem concatenate_reverse_halves:
  "Iterable_toArray halves = Some []
   \<and> Iterable_concatenate halves (Some (ArrayList [Some 4]))
       = Some (ConcatenateIterable halves [Some 4])
   \<and> Iterable_toArray (ConcatenateIterable halves [Some 4]) = Some [Some 4]
   \<and> reverseSequence (ConcatenateIterable halves [Some 4]) = Some [Some 4, Some 1]"
  by (simp add: Iterable_toArray_elems reverseSequence_relems halves_values
        Iterable_concatenate_def ConcatenateIterable_new_def)

text \<open>
  Skipping \<open>c - n\<close> of the \<open>c\<close> values of a list in reverse order, the count rounded up as
  \<open>skip\<close> does, leaves the \<open>\<lfloor>n\<rfloor>\<close> first values of the list, in reverse order.
\<close>

lemma drop_skips_rev:
  "drop (skips (number_minus (ofInt (int (length xs))) (Num q))) (rev xs)
     = rev (take (nat \<lfloor>q\<rfloor>) xs)"
proof (cases "q < of_int (int (length xs))")
  case True
  then have f: "\<lfloor>q\<rfloor> < int (length xs)" by (simp add: floor_less_iff)
  have "\<lceil>of_int c - q\<rceil> = c - \<lfloor>q\<rfloor>" for c :: int
    by (simp add: ceiling_def)
  from this[of "int (length xs)"] have "skips (number_minus (ofInt (int (length xs))) (Num q))
               = nat (int (length xs) - \<lfloor>q\<rfloor>)"
    using True by (simp add: number_eval)
  moreover have "length xs - nat (int (length xs) - \<lfloor>q\<rfloor>) = nat \<lfloor>q\<rfloor>"
    using f by linarith
  ultimately show ?thesis by (simp add: drop_rev)
next
  case False
  then have "int (length xs) \<le> \<lfloor>q\<rfloor>" by (simp add: le_floor_iff)
  then show ?thesis using False by (simp add: number_eval)
qed

text \<open>
  C1, as the code has it. For every iterable \<open>x\<close> and every number \<open>n\<close> other than \<open>NaN\<close>,
  when \<open>n\<close> is positive or every count given to \<open>skip\<close> and \<open>take\<close> in building \<open>x\<close> is an
  integer: \<open>x.take(n).iterateReverse()\<close> and \<open>x.iterateReverse().skip(x.getCount() - n)\<close> both
  run to their end and produce the same values; when \<open>n\<close> and the counts in \<open>x\<close> are
  integers, these are the \<open>n\<close> first values of \<open>x\<close> in reverse order (none when \<open>n \<le> 0\<close>, all
  of them when \<open>n\<close> is at least the count).
\<close>

theorem take_iterateReverse:
  assumes "0 < q \<or> wfI x"
  shows "\<exists>rs. reverseSequence (Iterable_take x (Some (Num q))) = Some rs
           \<and> reverseThenSkip x (Num q) = Some rs
           \<and> (wfI x \<longrightarrow> q = of_int n \<longrightarrow>
                (\<exists>xs. Iterable_toArray x = Some xs \<and> rs = rev (take (nat n) xs)))"
proof -
  let ?rs = "drop (skips (number_minus (counts x) (Num q))) (relems x)"
  have w: "?rs = rev (take (nat \<lfloor>q\<rfloor>) (elems x))" if "wfI x"
    using that drop_skips_rev[of "elems x" q] by (simp add: counts_wfI relems_wfI)
  have "reverseSequence (Iterable_take x (Some (Num q))) = Some ?rs"
  proof (cases "0 < q")
    case True
    then show ?thesis
      by (simp add: reverseSequence_relems Iterable_take_def truthy_def toNumber_def
            number_less_def ofInt_def)
  next
    case False
    then have "wfI x" and "nat \<lfloor>q\<rfloor> = 0" using assms by (simp_all add: floor_le_iff)
    then show ?thesis
      using False w
      by (simp add: reverseSequence_relems Iterable_take_def truthy_def toNumber_def
            number_less_def ofInt_def)
  qed
  moreover have "?rs = rev (take (nat n) (elems x))" if "wfI x" "q = of_int n"
    using w[OF that(1)] that(2) by simp
  ultimately show ?thesis by (simp add: reverseThenSkip_relems Iterable_toArray_elems)
qed

theorem take_iterateReverse_witness:
  "reverseSequence (Iterable_take (ArrayList [Some (1::int), Some 2, Some 3]) (Some (Num 2)))
     = Some [Some 2, Some 1]
   \<and> reverseThenSkip (ArrayList [Some (1::int), Some 2, Some 3]) (Num 2)
     = Some [Some 2, Some 1]"
  using take_iterateReverse[of 2 "ArrayList [Some (1::int), Some 2, Some 3]" 2]
  by (simp add: Iterable_toArray_elems)

text \<open>
  C1 as stated, for every number and every iterable, fails at \<open>NaN\<close> and at counts that
  are not integers. \<open>take(NaN)\<close> is an empty array list, while \<open>skip(count - NaN)\<close> skips
  nothing: over the array list of 1, 2, 3 the first yields nothing in reverse and the second
  3, 2, 1. And for \<open>x = new ArrayList([1, 2, 3]).take(1.5).skip(0.5).where(v => true)\<close>,
  whose \<open>getCount()\<close> is 0 and whose reverse iteration yields 1, \<open>x.take(0)\<close> yields nothing
  in reverse while \<open>x.iterateReverse().skip(x.getCount() - 0)\<close> yields 1.
\<close>

theorem take_iterateReverse_NaN:
  "reverseSequence (Iterable_take (ArrayList [Some (1::int), Some 2, Some 3]) (Some NaN))
     = Some []
   \<and> reverseThenSkip (ArrayList [Some (1::int), Some 2, Some 3]) NaN
     = Some [Some 3, Some 2, Some 1]
   \<and> getCount halvesWhere = Some (ofInt 0)
   \<and> reverseSequence (Iterable_take halvesWhere (Some (ofInt 0))) = Some []
   \<and> reverseThenSkip halvesWhere (ofInt 0) = Some [Some 1]"
  by (simp add: reverseSequence_relems reverseThenSkip_relems getCount_counts halvesWhere_def
        Iterable_where_def Iterable_take_def halves_values number_eval)

text \<open>
  What \<open>endsWith\<close> computes, for all iterables: \<open>takeLast\<close> always returns, and the loop
  compares its values with those of the argument as far as both go.
\<close>

definition lastValues :: "'a Iterable \<Rightarrow> number \<Rightarrow> 'a Iterable" where
  "lastValues x n =
     (if \<not> truthy (Some n) \<or> number_less n (ofInt 0) then ArrayList []
      else if number_lessEq (counts x) n then x
      else Iterable_skip x (Some (number_minus (counts x) n)))"

lemma Iterable_takeLast_counts: "Iterable_takeLast x (Some n) = Some (lastValues x n)"
  by (simp add: Iterable_takeLast_def getCount_counts toNumber_def lastValues_def)

lemma Iterable_endsWith_counts:
  "Iterable_endsWith x (Some y) =
     (if counts y = ofInt 0 \<or> number_less (counts x) (counts y) then Some False
      else Some (agree (elems (lastValues x (counts y))) (elems y)))"
proof -
  let ?t = "lastValues x (counts y)"
  obtain a where a: "iterate ?t = Some a" "wellFormed a" "view a = (None, elems ?t)"
    using iterate_view by blast
  obtain c where c: "iterate y = Some c" "wellFormed c" "view c = (None, elems y)"
    using iterate_view by blast
  have "endsWith_loop a c = Some (agree (elems ?t) (elems y))"
    using endsWith_loop_view[OF a(2) c(2)] a(3) c(3) by simp
  then show ?thesis
    using a(1) c(1)
    by (simp add: Iterable_endsWith_def getCount_counts Iterable_takeLast_counts)
qed

text \<open>
  C2, as the code has it. For all iterables \<open>x\<close> and \<open>y\<close> with integer counts, \<open>x.endsWith(y)\<close>
  returns, \<open>getCount()\<close> of each is the number of its values, and \<open>x.endsWith(y)\<close> is true
  exactly when \<open>y\<close> is not empty, \<open>y.getCount() \<le> x.getCount()\<close> and the \<open>y.getCount()\<close> last
  values of \<open>x\<close> are the values of \<open>y\<close>; with an absent argument it returns false.
\<close>

theorem endsWith_iff:
  assumes "wfI x" "wfI y"
  shows "\<exists>xs ys. Iterable_toArray x = Some xs \<and> Iterable_toArray y = Some ys
           \<and> getCount x = Some (ofInt (int (length xs)))
           \<and> getCount y = Some (ofInt (int (length ys)))
           \<and> Iterable_endsWith x (Some y)
                = Some (ys \<noteq> [] \<and> length ys \<le> length xs
                        \<and> drop (length xs - length ys) xs = ys)
           \<and> Iterable_endsWith x None = Some False"
proof -
  let ?xs = "elems x" and ?ys = "elems y"
  have cx: "counts x = ofInt (int (length ?xs))" and cy: "counts y = ofInt (int (length ?ys))"
    using assms by (simp_all add: counts_wfI)
  have e: "Iterable_endsWith x (Some y)
             = Some (?ys \<noteq> [] \<and> length ?ys \<le> length ?xs
                     \<and> drop (length ?xs - length ?ys) ?xs = ?ys)"
  proof (cases "?ys = [] \<or> length ?xs < length ?ys")
    case True
    then show ?thesis using cx cy by (auto simp: Iterable_endsWith_counts ofInt_simps)
  next
    case False
    define t where "t = lastValues x (counts y)"
    have et: "elems t = drop (length ?xs - length ?ys) ?xs"
      using False cx cy
      by (auto simp: t_def lastValues_def ofInt_simps Iterable_skip_def
            skips_ofInt nat_diff_distrib')
    have "length (elems t) = length ?ys" using False by (simp add: et)
    then have "agree (elems t) ?ys \<longleftrightarrow> elems t = ?ys" by (rule agree_same_length)
    then show ?thesis
      using False cx cy et by (simp add: Iterable_endsWith_counts ofInt_simps t_def)
  qed
  show ?thesis
    using cx cy e
    by (simp add: Iterable_toArray_elems Iterable_endsWith_def getCount_counts)
qed

theorem endsWith_iff_witness:
  "Iterable_endsWith (ArrayList [Some (1::int), Some 2, Some 3]) (Some (ArrayList [Some 2, Some 3]))
     = Some True
   \<and> Iterable_endsWith (ArrayList [Some (1::int), Some 2, Some 3]) (Some (ArrayList [Some 1, Some 2]))
     = Some False
   \<and> Iterable_endsWith (ArrayList [Some (1::int)]) (Some (ArrayList [])) = Some False"
  using endsWith_iff[of "ArrayList [Some (1::int), Some 2, Some 3]" "ArrayList [Some 2, Some 3]"]
        endsWith_iff[of "ArrayList [Some (1::int), Some 2, Some 3]" "ArrayList [Some 1, Some 2]"]
        endsWith_iff[of "ArrayList [Some (1::int)]" "ArrayList []"]
  by (simp add: Iterable_toArray_elems)

text \<open>
  C2 as stated, for all iterables, fails for a \<open>y\<close> whose count is not an integer:
  \<open>y = new ArrayList([5]).take(0.5)\<close> has no values and \<open>y.getCount()\<close> is 0.5, and
  \<open>new ArrayList([1]).endsWith(y)\<close> is true.
\<close>

theorem endsWith_half:
  "Iterable_toArray (Iterable_take (ArrayList [Some (5::int)]) (Some (Num (1 / 2)))) = Some []
   \<and> getCount (Iterable_take (ArrayList [Some (5::int)]) (Some (Num (1 / 2))))
       = Some (Num (1 / 2))
   \<and> Iterable_endsWith (ArrayList [Some 1])
        (Some (Iterable_take (ArrayList [Some (5::int)]) (Some (Num (1 / 2))))) = Some True"
  by (simp add: Iterable_toArray_elems getCount_counts Iterable_endsWith_counts
        lastValues_def Iterable_take_def Iterable_skip_def number_eval halves_rounding)

text \<open>
  What holds of \<open>where\<close>, \<open>map\<close>, \<open>skip\<close> and \<open>take\<close> with an absent argument on every
  iterable \<open>x\<close>, every well-formed iterator \<open>it\<close> and every sequence \<open>qs\<close> of calls of
  \<open>hasCurrent()\<close>, \<open>next()\<close> and \<open>getCurrent()\<close>: \<open>x.where()\<close> and \<open>x.skip(n)\<close> with \<open>n\<close> absent, 0
  or negative are \<open>x\<close>; \<open>it.where()\<close> and \<open>it.skip(n)\<close> with such an \<open>n\<close> answer \<open>qs\<close> as \<open>it\<close>
  does; \<open>x.map()\<close> and \<open>x.take(n)\<close> with \<open>n\<close> absent or 0 are an empty array list; \<open>it.map()\<close>
  and \<open>it.take(n)\<close> with such an \<open>n\<close> answer false to every \<open>hasCurrent()\<close> and \<open>next()\<close> and
  \<open>undefined\<close> to every \<open>getCurrent()\<close>, as the iterator of an empty array list does.
\<close>

lemma absent_arguments:
  assumes "wellFormed it"
  shows "Iterable_where x None = x
       \<and> (\<exists>w. Iterator_where it None = Some w \<and> observe qs w = observe qs it)
       \<and> Iterable_map x None = ArrayList []
       \<and> (\<exists>w. Iterator_map it None = Some w
              \<and> observe qs w = Some (map (\<lambda>q. (False, None)) qs))
       \<and> Iterable_skip x None = x
       \<and> (q \<le> 0 \<longrightarrow> Iterable_skip x (Some (Num q)) = x)
       \<and> (\<exists>w. Iterator_skip it None = Some w \<and> observe qs w = observe qs it)
       \<and> (q \<le> 0 \<longrightarrow>
            (\<exists>w. Iterator_skip it (Some (Num q)) = Some w \<and> observe qs w = observe qs it))
       \<and> Iterable_take x None = ArrayList []
       \<and> Iterable_take x (Some (ofInt 0)) = ArrayList []
       \<and> (\<exists>w. Iterator_take it None = Some w
              \<and> observe qs w = Some (map (\<lambda>q. (False, None)) qs))
       \<and> (\<exists>w. Iterator_take it (Some (ofInt 0)) = Some w
              \<and> observe qs w = Some (map (\<lambda>q. (False, None)) qs))
       \<and> (\<exists>answers. observe qs it = Some answers)
       \<and> observe qs (ArrayListForwardIterator [] None) = Some (map (\<lambda>q. (False, None)) qs)"
proof -
  have w: "\<exists>w. Iterator_where it None = Some w \<and> observe qs w = observe qs it"
    using assms observe_same_view[of "WhereIterator it None" it qs]
    by (simp add: Iterator_where_def WhereIterator_new_def)
  have m: "\<exists>w. Iterator_map it None = Some w
              \<and> observe qs w = Some (map (\<lambda>q. (False, None)) qs)"
    using assms observe_empty_view[of "MapIterator it None (hasStarted it)" qs]
    by (simp add: Iterator_map_def MapIterator_new_def)
  have s: "\<exists>w. Iterator_skip it toSkip = Some w \<and> observe qs w = observe qs it"
    if "pending toSkip (ofInt 0) = 0" for toSkip
    using assms that observe_same_view[of "SkipIterator it toSkip (ofInt 0)" it qs]
    by (simp add: Iterator_skip_def SkipIterator_new_def view_SkipIterator_done
          del: view.simps)
  have t: "\<exists>w. Iterator_take it toTake = Some w
              \<and> observe qs w = Some (map (\<lambda>q. (False, None)) qs)"
    if "toTake = None \<or> toTake = Some (ofInt 0)" for toTake
    using Iterator_take_empty[OF assms that] observe_empty_view by blast
  have e: "observe qs (ArrayListForwardIterator [] None) = Some (map (\<lambda>q. (False, None)) qs)"
    by (rule observe_empty_view) simp_all
  have o: "\<exists>answers. observe qs it = Some answers"
    using assms by (simp add: observe_wellFormed)
  have p: "pending None (ofInt 0) = 0" "q \<le> 0 \<Longrightarrow> pending (Some (Num q)) (ofInt 0) = 0"
    by (simp_all add: pending_def toNumber_def ofInt_def)
  show ?thesis
    using w m s[of None] s[of "Some (Num q)"] t[of None] t[of "Some (ofInt 0)"] e o p
    by (simp add: Iterable_where_def Iterable_map_def Iterable_skip_def Iterable_take_def
          ofInt_simps truthy_def toNumber_def number_less_def ofInt_def)
qed

lemma absent_arguments_example:
  "(\<exists>w. Iterator_where (ArrayListForwardIterator [Some (1::int), Some 2] None) None = Some w
        \<and> observe [QueryNext, QueryGetCurrent, QueryNext, QueryNext, QueryHasCurrent] w
             = Some [(True, None), (False, Some 1), (True, None), (False, None), (False, None)])
   \<and> (\<exists>w. Iterator_skip (ArrayListForwardIterator [Some (1::int), Some 2] None)
             (Some (Num (- 1))) = Some w
        \<and> observe [QueryNext, QueryGetCurrent, QueryNext, QueryNext, QueryHasCurrent] w
             = Some [(True, None), (False, Some 1), (True, None), (False, None), (False, None)])
   \<and> (\<exists>w. Iterator_take (ArrayListForwardIterator [Some (1::int), Some 2] None)
             (Some (ofInt 0)) = Some w
        \<and> observe [QueryNext, QueryGetCurrent, QueryNext, QueryNext, QueryHasCurrent] w
             = Some [(False, None), (False, None), (False, None), (False, None), (False, None)])
   \<and> Iterable_skip (ArrayList [Some (1::int)]) (Some (Num (- 1))) = ArrayList [Some 1]"
  using absent_arguments[of "ArrayListForwardIterator [Some (1::int), Some 2] None"
          "ArrayList [Some (1::int)]"
          "[QueryNext, QueryGetCurrent, QueryNext, QueryNext, QueryHasCurrent]" "- 1"]
  by (simp add: observe_wellFormed currentValue_def del: observe.simps)

text \<open>
  C6 (the code at an input where it departs from the claim). \<open>MapIterator.concatenate\<close>
  does not test its argument, as \<open>IteratorBase.concatenate\<close> does: for the iterator \<open>m\<close> that
  \<open>map\<close> builds over the iterator of an array list, \<open>m.concatenate()\<close> is a
  \<open>ConcatenateIterator\<close> whose second iterator is \<open>undefined\<close>, where the same call on the
  iterator of the array list returns that iterator itself. On it, \<open>take(0)\<close> and \<open>take()\<close>
  return nothing: the constructor of \<open>TakeIterator\<close> asks \<open>hasCurrent()\<close>, which reaches
  the second iterator and raises a TypeError.
\<close>

theorem take_on_map_concatenate_absent:
  "Iterator_map (ArrayListForwardIterator [Some (1::int)] None) (Some (\<lambda>v. v))
     = Some (MapIterator (ArrayListForwardIterator [Some 1] None) (Some (\<lambda>v. v)) False)
   \<and> Iterator_concatenate
        (MapIterator (ArrayListForwardIterator [Some (1::int)] None) (Some (\<lambda>v. v)) False) None
     = Some (ConcatenateIterator
        (MapIterator (ArrayListForwardIterator [Some 1] None) (Some (\<lambda>v. v)) False) None)
   \<and> Iterator_take (ConcatenateIterator
        (MapIterator (ArrayListForwardIterator [Some (1::int)] None) (Some (\<lambda>v. v)) False) None)
        (Some (ofInt 0)) = None
   \<and> Iterator_take (ConcatenateIterator
        (MapIterator (ArrayListForwardIterator [Some (1::int)] None) (Some (\<lambda>v. v)) False) None)
        None = None
   \<and> Iterator_concatenate (ArrayListForwardIterator [Some (1::int)] None) None
     = Some (ArrayListForwardIterator [Some 1] None)"
  by (simp add: Iterator_map_def MapIterator_new_def Iterator_take_def TakeIterator_new_def
        Iterator_hasCurrent_def call_simps ConcatenateIterator_call_def MapIterator_call_def
        ArrayListForwardIterator_call_def callSecond_def isDefined_def)

text \<open>
  C7, as the code has it. Of an iterator in which every concatenation has its second
  iterator, and as long as no array list under it is modified: when none of the iterators
  under it has been advanced, \<open>hasCurrent()\<close> is false, and so it is for the iterator
  \<open>iterate()\<close> and \<open>iterateReverse()\<close> return; and in every state its methods can reach, when
  \<open>next()\<close> returns false, every later \<open>hasCurrent()\<close> and \<open>next()\<close> returns false and every
  later \<open>getCurrent()\<close> returns \<open>undefined\<close>.
\<close>

theorem fresh_and_exhausted:
  assumes "wellFormed it"
  shows "(fresh it \<longrightarrow> (\<exists>it'. Iterator_hasCurrent it = Some (False, it')))
       \<and> (\<exists>i i'. iterate x = Some i \<and> Iterator_hasCurrent i = Some (False, i'))
       \<and> (\<exists>r r'. iterateReverse x = Some r \<and> Iterator_hasCurrent r = Some (False, r'))
       \<and> (\<exists>b it1. Iterator_next it = Some (b, it1)
            \<and> (\<not> b \<longrightarrow> observe qs it1 = Some (map (\<lambda>q. (False, None)) qs)))"
proof -
  have "fresh it \<Longrightarrow> Iterator_hasCurrent it = Some (False, after HasCurrent it)"
    using assms by (simp add: wellFormed_hasCurrent fresh_view)
  moreover have "\<exists>i i'. iterate x = Some i \<and> Iterator_hasCurrent i = Some (False, i')"
    using iterate_view[of x] by (auto simp: wellFormed_hasCurrent)
  moreover have "\<exists>r r'. iterateReverse x = Some r \<and> Iterator_hasCurrent r = Some (False, r')"
    using iterateReverse_view[of x] by (auto simp: wellFormed_hasCurrent)
  moreover have "Iterator_next it = Some (snd (view it) \<noteq> [], after Next it)"
    using assms by (rule wellFormed_next)
  moreover have "observe qs (after Next it) = Some (map (\<lambda>q. (False, None)) qs)"
    if "snd (view it) = []"
    using assms that by (intro observe_empty_view) (simp_all add: wellFormed_after)
  ultimately show ?thesis by auto
qed

theorem fresh_and_exhausted_witness:
  "(\<exists>it'. Iterator_hasCurrent (ArrayListForwardIterator [Some (1::int)] None) = Some (False, it'))
   \<and> (\<exists>it1. Iterator_next (ArrayListForwardIterator [Some (1::int)] (Some 0)) = Some (False, it1)
          \<and> observe [QueryHasCurrent, QueryNext, QueryGetCurrent, QueryHasCurrent] it1
               = Some [(False, None), (False, None), (False, None), (False, None)])"
  using fresh_and_exhausted[of "ArrayListForwardIterator [Some (1::int)] None"
          "ArrayList []" "[]"]
        fresh_and_exhausted[of "ArrayListForwardIterator [Some (1::int)] (Some 0)"
          "ArrayList []" "[QueryHasCurrent, QueryNext, QueryGetCurrent, QueryHasCurrent]"]
  by (auto simp: wellFormed_next simp del: observe.simps)

text \<open>
  C7 as stated fails in both halves. An iterator built over one that has been advanced
  has a current value before its own first \<open>next()\<close>: with \<open>b\<close> the iterator of the array
  list of 2 after one \<open>next()\<close>, the concatenation of the iterator of the array list of 1,
  which has not been advanced, with \<open>b\<close> answers false to \<open>hasStarted()\<close> and true to
  \<open>hasCurrent()\<close>, and so does \<open>b.where()\<close> to \<open>hasCurrent()\<close>. And an exhausted iterator
  has a current value again when its array list grows: the iterator of the array list of
  1, at index 0, answers false to \<open>next()\<close> and is then at index 1, where \<open>hasCurrent()\<close> is
  false; after \<open>add(2)\<close> on the array list, \<open>hasCurrent()\<close> is true and \<open>getCurrent()\<close> is 2.
\<close>

theorem notFresh_hasCurrent:
  "Iterator_next (ArrayListForwardIterator [Some (2::int)] None)
     = Some (True, ArrayListForwardIterator [Some 2] (Some 0))
   \<and> Iterator_concatenate (ArrayListForwardIterator [Some (1::int)] None)
        (Some (ArrayListForwardIterator [Some 2] (Some 0)))
     = Some (ConcatenateIterator (ArrayListForwardIterator [Some 1] None)
               (Some (ArrayListForwardIterator [Some 2] (Some 0))))
   \<and> hasStarted (ConcatenateIterator (ArrayListForwardIterator [Some (1::int)] None)
               (Some (ArrayListForwardIterator [Some 2] (Some 0)))) = False
   \<and> Iterator_hasCurrent (ConcatenateIterator (ArrayListForwardIterator [Some (1::int)] None)
               (Some (ArrayListForwardIterator [Some 2] (Some 0))))
     = Some (True, ConcatenateIterator (ArrayListForwardIterator [Some 1] None)
               (Some (ArrayListForwardIterator [Some 2] (Some 0))))
   \<and> Iterator_where (ArrayListForwardIterator [Some (2::int)] (Some 0)) None
     = Some (WhereIterator (ArrayListForwardIterator [Some 2] (Some 0)) None)
   \<and> Iterator_hasCurrent (WhereIterator (ArrayListForwardIterator [Some (2::int)] (Some 0)) None)
     = Some (True, WhereIterator (ArrayListForwardIterator [Some 2] (Some 0)) None)
   \<and> Iterator_next (ArrayListForwardIterator [Some (1::int)] (Some 0))
     = Some (False, ArrayListForwardIterator [Some 1] (Some 1))
   \<and> Iterator_hasCurrent (ArrayListForwardIterator [Some (1::int)] (Some 1))
     = Some (False, ArrayListForwardIterator [Some 1] (Some 1))
   \<and> Iterator_hasCurrent
        (ArrayListForwardIterator (ArrayList_add [Some (1::int)] (Some 2)) (Some 1))
     = Some (True, ArrayListForwardIterator [Some 1, Some 2] (Some 1))
   \<and> Iterator_getCurrent
        (ArrayListForwardIterator (ArrayList_add [Some (1::int)] (Some 2)) (Some 1))
     = Some (Some 2, ArrayListForwardIterator [Some 1, Some 2] (Some 1))"
  by (simp add: Iterator_next_def Iterator_hasCurrent_def Iterator_getCurrent_def
        Iterator_where_def WhereIterator_new_def call_simps ArrayListForwardIterator_call_def
        ArrayListForwardIterator_next_def ArrayListForwardIterator_atEnd_def
        ArrayList_getCount_def ArrayList_get_def ArrayList_add_def
        ConcatenateIterator_call_def callSecond_def WhereIterator_call_def
        IteratorDecorator_call_def isDefined_def)

end
